theory Spec2Isabelle
  imports Complex_Main "HOL-Library.Sublist" "HOL-Library.Word"
begin

section \<open>Python values\<close>

text \<open>
  A Python \<^verbatim>\<open>str\<close> is the list of its code points, so that slicing and \<^verbatim>\<open>len\<close>
  count what Python counts. The literals of \<^verbatim>\<open>backend/app.py\<close> that are not ASCII are
  written as code points. \<^verbatim>\<open>bytes\<close> are lists of 8-bit words.
\<close>

type_synonym pystr = "nat list"

type_synonym byte = "8 word"

definition ascii :: "string \<Rightarrow> pystr" where
  "ascii s = map of_char s"

text \<open>\<^verbatim>\<open>s[-n:]\<close> for a positive \<open>n\<close>: the last \<open>n\<close> code points, all of \<open>s\<close> when it is shorter.\<close>

definition suffix_from :: "nat \<Rightarrow> pystr \<Rightarrow> pystr" where
  "suffix_from n s = drop (length s - n) s"

text \<open>
  \<^verbatim>\<open>str.isspace\<close> of one code point, as CPython's table has it, and \<^verbatim>\<open>str.strip()\<close>.
\<close>

definition isspace :: "nat \<Rightarrow> bool" where
  "isspace c = ((9 \<le> c \<and> c \<le> 13) \<or> (28 \<le> c \<and> c \<le> 32) \<or> c = 133 \<or> c = 160 \<or>
     c = 5760 \<or> (8192 \<le> c \<and> c \<le> 8202) \<or> c = 8232 \<or> c = 8233 \<or> c = 8239 \<or>
     c = 8287 \<or> c = 12288)"

definition strip :: "pystr \<Rightarrow> pystr" where
  "strip s = rev (dropWhile isspace (rev (dropWhile isspace s)))"

text \<open>\<^verbatim>\<open>str(n)\<close> of an integer.\<close>

fun digits :: "nat \<Rightarrow> pystr" where
  "digits n = (if n < 10 then [48 + n] else digits (n div 10) @ [48 + n mod 10])"

declare digits.simps [simp del]

definition str_of_int :: "int \<Rightarrow> pystr" where
  "str_of_int i = (if i < 0 then 45 # digits (nat (- i)) else digits (nat i))"

text \<open>
  What \<^verbatim>\<open>json.loads\<close> returns, and what the request bodies are built from. A float is
  carried as its \<^verbatim>\<open>repr\<close> (which tells floats apart); a dict as its items in order,
  the first binding of a key being the one \<^verbatim>\<open>get\<close> finds.
\<close>

datatype json =
    JNull
  | JBool bool
  | JInt int
  | JFloat pystr
  | JStr pystr
  | JArr "json list"
  | JObj "(pystr \<times> json) list"

text \<open>An exception as the handlers of the source read it: \<^verbatim>\<open>type(e).__name__\<close> and \<^verbatim>\<open>str(e)\<close>.\<close>

datatype exn = Exn (exn_name: pystr) (exn_str: pystr)

text \<open>
  The operations of the source that the interpreter refuses on a value of the wrong
  type, each with the value it was applied to: \<^verbatim>\<open>v.get\<close>, \<^verbatim>\<open>v[k]\<close>, \<^verbatim>\<open>for x in v\<close>,
  \<^verbatim>\<open>k in v\<close>, \<^verbatim>\<open>len(v)\<close>, \<^verbatim>\<open>v[:n]\<close> and \<^verbatim>\<open>"\n".join(vs)\<close>.
\<close>

datatype fault =
    NoAttribute json pystr
  | NotSubscriptable json json
  | NotIterable json
  | NotContainer json
  | NoLen json
  | NoSlice json
  | NotJoinable "json list"

text \<open>
  What the source takes from the Python runtime and its libraries and this theory does
  not define: \<^verbatim>\<open>str.isalnum\<close> beyond ASCII (for the pattern \<^verbatim>\<open>\w\<close>),
  \<^verbatim>\<open>bytes.decode("utf-8", errors="ignore")\<close>, \<^verbatim>\<open>json.loads(content.decode("utf-8"))\<close>
  with the exception it may raise, \<^verbatim>\<open>str\<close> of a list or dict, and the exception the
  interpreter raises for each fault. Every theorem holds for every such runtime.
\<close>

record runtime =
  uni_alnum :: "nat \<Rightarrow> bool"
  utf8_ignore :: "byte list \<Rightarrow> pystr"
  json_loads :: "byte list \<Rightarrow> exn + json"
  repr_of :: "json \<Rightarrow> pystr"
  raised :: "fault \<Rightarrow> exn"

section \<open>The pattern of a reference image\<close>

text \<open>
  \<^verbatim>\<open>re.match(r"data:(image/\w+);base64,(.+)", img_data)\<close>: the pattern as a list of
  items, and a matcher anchored at the start of the string that takes the longest run
  for \<^verbatim>\<open>+\<close> first and gives characters back one at a time. It returns the groups
  in the order they close.
\<close>

datatype cclass = Word | AnyChar

datatype re = Lit pystr | Plus cclass | GroupOpen | GroupClose

definition ascii_alnum :: "nat \<Rightarrow> bool" where
  "ascii_alnum c = ((48 \<le> c \<and> c \<le> 57) \<or> (65 \<le> c \<and> c \<le> 90) \<or> (97 \<le> c \<and> c \<le> 122))"

definition in_class :: "runtime \<Rightarrow> cclass \<Rightarrow> nat \<Rightarrow> bool" where
  "in_class rt k c =
     (case k of
        Word \<Rightarrow> c = 95 \<or> (if c < 128 then ascii_alnum c else uni_alnum rt c)
      | AnyChar \<Rightarrow> c \<noteq> 10)"

fun re_run :: "runtime \<Rightarrow> re list \<Rightarrow> pystr \<Rightarrow> pystr \<Rightarrow> nat list \<Rightarrow> pystr list \<Rightarrow> pystr list option"
  and re_plus :: "runtime \<Rightarrow> re list \<Rightarrow> nat \<Rightarrow> pystr \<Rightarrow> pystr \<Rightarrow> nat list \<Rightarrow> pystr list \<Rightarrow> pystr list option"
where
  "re_run rt [] seen s opens groups = Some groups"
| "re_run rt (Lit l # ps) seen s opens groups =
     (if prefix l s then re_run rt ps (seen @ l) (drop (length l) s) opens groups else None)"
| "re_run rt (GroupOpen # ps) seen s opens groups = re_run rt ps seen s (length seen # opens) groups"
| "re_run rt (GroupClose # ps) seen s opens groups =
     (case opens of
        [] \<Rightarrow> None
      | start # outer \<Rightarrow> re_run rt ps seen s outer (groups @ [drop start seen]))"
| "re_run rt (Plus k # ps) seen s opens groups =
     re_plus rt ps (length (takeWhile (in_class rt k) s)) seen s opens groups"
| "re_plus rt ps 0 seen s opens groups = None"
| "re_plus rt ps (Suc n) seen s opens groups =
     (case re_run rt ps (seen @ take (Suc n) s) (drop (Suc n) s) opens groups of
        Some g \<Rightarrow> Some g
      | None \<Rightarrow> re_plus rt ps n seen s opens groups)"

definition re_match :: "runtime \<Rightarrow> re list \<Rightarrow> pystr \<Rightarrow> pystr list option" where
  "re_match rt ps s = re_run rt ps [] s [] []"

definition data_url_re :: "re list" where
  "data_url_re =
     [Lit (ascii ''data:''), GroupOpen, Lit (ascii ''image/''), Plus Word, GroupClose,
      Lit (ascii '';base64,''), GroupOpen, Plus AnyChar, GroupClose]"

section \<open>Requests, jobs and the module's globals\<close>

record generate_request =
  prompt :: pystr
  aspect_ratio :: "pystr option"
  model :: pystr
  reference_images :: "pystr list option"
  image_size :: "pystr option"

datatype job_status = Processing | Completed | Failed

text \<open>
  One entry of \<^verbatim>\<open>tasks\<close>. The key \<^verbatim>\<open>thinking\<close> is absent until the engine adds it
  (\<open>None\<close>).
\<close>

record job =
  status :: job_status
  progress :: int
  result_url :: "pystr option"
  result_base64 :: "pystr option"
  error :: "pystr option"
  created_at :: pystr
  job_prompt :: pystr
  job_model :: pystr
  thinking :: "pystr option"

text \<open>
  The globals \<^verbatim>\<open>user_api_key\<close> and \<^verbatim>\<open>tasks\<close>, and the file \<^verbatim>\<open>.api_key\<close> beside the
  module (\<open>None\<close>: the file does not exist).
\<close>

record server =
  user_api_key :: pystr
  api_key_file :: "pystr option"
  tasks :: "pystr \<rightharpoonup> job"

datatype http_error = HTTPException int pystr

definition GOOGLE_API_HOSTS :: "pystr list" where
  "GOOGLE_API_HOSTS = [ascii ''https://api.zzz-api.top/google'', ascii ''https://api.zhizengzeng.com/google'']"

definition MODELS :: "pystr \<rightharpoonup> pystr" where
  "MODELS = [ascii ''nano-banana'' \<mapsto> ascii ''gemini-2.5-flash-image'',
             ascii ''nano-banana-pro'' \<mapsto> ascii ''gemini-3-pro-image-preview'']"

section \<open>The credential\<close>

definition load_api_key :: "pystr option \<Rightarrow> pystr option \<Rightarrow> pystr" where
  "load_api_key file env =
     (case file of
        Some c \<Rightarrow> strip c
      | None \<Rightarrow> (case env of Some v \<Rightarrow> v | None \<Rightarrow> []))"

text \<open>
  \<^verbatim>\<open>set_api_key\<close> assigns the global first and writes the file second. \<open>fs\<close> is what
  opening the file for writing does: \<open>None\<close> when it succeeds, the exception otherwise,
  which then leaves the handler with the global already assigned. The reply is
  \<^verbatim>\<open>success\<close> and \<^verbatim>\<open>message\<close>.
\<close>

definition set_api_key :: "exn option \<Rightarrow> pystr \<Rightarrow> server \<Rightarrow> (exn + bool \<times> pystr) \<times> server" where
  "set_api_key fs api_key s =
     (let s1 = s\<lparr>user_api_key := api_key\<rparr> in
      case fs of
        Some e \<Rightarrow> (Inl e, s1)
      | None \<Rightarrow>
          (Inr (True, ascii ''API'' @ [23494, 38053, 24050, 35774, 32622, 24182, 20445, 23384]),
           s1\<lparr>api_key_file := Some api_key\<rparr>))"

text \<open>\<^verbatim>\<open>check_api_key\<close> returns \<^verbatim>\<open>has_key\<close> and \<^verbatim>\<open>masked_key\<close>.\<close>

definition check_api_key :: "server \<Rightarrow> bool \<times> pystr" where
  "check_api_key s =
     (let k = user_api_key s;
          has_key = (k \<noteq> []);
          masked_key =
            (if k \<noteq> [] then
               (if length k > 12 then take 8 k @ ascii ''...'' @ suffix_from 4 k
                else ascii ''***'')
             else [])
      in (has_key, masked_key))"

section \<open>Submitting a job\<close>

text \<open>
  Lines 122 to 145 of \<^verbatim>\<open>generate_image\<close>: the body starts as the text part alone, and
  every reference image that starts with \<^verbatim>\<open>data:\<close> and matches the pattern is
  inserted at position 0 of the parts.
\<close>

definition text_part :: "pystr \<Rightarrow> json" where
  "text_part t = JObj [(ascii ''text'', JStr t)]"

definition inline_part :: "pystr \<Rightarrow> pystr \<Rightarrow> json" where
  "inline_part mime_type base64_data =
     JObj [(ascii ''inlineData'',
            JObj [(ascii ''mimeType'', JStr mime_type), (ascii ''data'', JStr base64_data)])]"

fun add_reference_images :: "runtime \<Rightarrow> pystr list \<Rightarrow> json list \<Rightarrow> json list" where
  "add_reference_images rt [] parts = parts"
| "add_reference_images rt (img_data # rest) parts =
     add_reference_images rt rest
       (if prefix (ascii ''data:'') img_data then
          (case re_match rt data_url_re img_data of
             Some [mime_type, base64_data] \<Rightarrow> inline_part mime_type base64_data # parts
           | _ \<Rightarrow> parts)
        else parts)"

definition build_parts :: "runtime \<Rightarrow> generate_request \<Rightarrow> json list" where
  "build_parts rt request =
     (let parts = [text_part (prompt request)] in
      case reference_images request of
        None \<Rightarrow> parts
      | Some imgs \<Rightarrow> if imgs = [] then parts else add_reference_images rt imgs parts)"

definition build_payload :: "runtime \<Rightarrow> generate_request \<Rightarrow> json" where
  "build_payload rt request =
     JObj [(ascii ''contents'', JArr [JObj [(ascii ''parts'', JArr (build_parts rt request))]])]"

text \<open>The arguments \<^verbatim>\<open>generate_image\<close> hands to \<^verbatim>\<open>_execute_generation\<close>.\<close>

record generation =
  task_id :: pystr
  model_name :: pystr
  payload :: json
  headers :: "(pystr \<times> pystr) list"

text \<open>
  \<^verbatim>\<open>generate_image\<close>. \<open>new_id\<close> is the \<^verbatim>\<open>uuid4\<close> drawn and \<open>now\<close> the timestamp. It
  returns the exception raised or the reply (\<^verbatim>\<open>task_id\<close>, \<^verbatim>\<open>status\<close>, \<^verbatim>\<open>model\<close>,
  \<^verbatim>\<open>message\<close>) with the background task it created, and the globals as it leaves them.
\<close>

definition generate_image ::
  "runtime \<Rightarrow> pystr \<Rightarrow> pystr \<Rightarrow> generate_request \<Rightarrow> server \<Rightarrow>
     (http_error + (pystr \<times> job_status \<times> pystr \<times> pystr) \<times> generation) \<times> server" where
  "generate_image rt new_id now request s =
     (if user_api_key s = [] then
        (Inl (HTTPException 400 ([35831, 20808, 35774, 32622] @ ascii ''API'' @ [23494, 38053])), s)
      else if strip (prompt request) = [] then
        (Inl (HTTPException 400 [25552, 31034, 35789, 19981, 33021, 20026, 31354]), s)
      else
        (let name = (case MODELS (model request) of
                       Some m \<Rightarrow> m
                     | None \<Rightarrow> ascii ''gemini-3-pro-image-preview'');
             body = build_payload rt request;
             hdrs = [(ascii ''Content-Type'', ascii ''application/json''),
                     (ascii ''x-goog-api-key'', user_api_key s),
                     (ascii ''Connection'', ascii ''keep-alive'')];
             created = \<lparr>status = Processing, progress = 10, result_url = None,
                        result_base64 = None, error = None, created_at = now,
                        job_prompt = prompt request, job_model = name, thinking = None\<rparr>
         in (Inr ((new_id, Processing, name,
                   [20219, 21153, 24050, 25552, 20132, 65292, 35831, 36718, 35810, 33719, 21462, 32467, 26524]),
                  \<lparr>task_id = new_id, model_name = name, payload = body, headers = hdrs\<rparr>),
             s\<lparr>tasks := (tasks s)(new_id \<mapsto> created)\<rparr>)))"

text \<open>\<^verbatim>\<open>get_task_status\<close> with its \<^verbatim>\<open>TaskStatusResponse\<close>, and \<^verbatim>\<open>delete_task\<close>.\<close>

record task_status_response =
  r_task_id :: pystr
  r_status :: job_status
  r_progress :: int
  r_result_url :: "pystr option"
  r_result_base64 :: "pystr option"
  r_error :: "pystr option"
  r_created_at :: pystr
  r_model :: "pystr option"

definition get_task_status :: "pystr \<Rightarrow> server \<Rightarrow> http_error + task_status_response" where
  "get_task_status tid s =
     (case tasks s tid of
        None \<Rightarrow> Inl (HTTPException 404 [20219, 21153, 19981, 23384, 22312])
      | Some task \<Rightarrow>
          Inr \<lparr>r_task_id = tid, r_status = status task, r_progress = progress task,
               r_result_url = result_url task, r_result_base64 = result_base64 task,
               r_error = error task, r_created_at = created_at task,
               r_model = Some (job_model task)\<rparr>)"

definition delete_task :: "pystr \<Rightarrow> server \<Rightarrow> (http_error + pystr) \<times> server" where
  "delete_task tid s =
     (case tasks s tid of
        None \<Rightarrow> (Inl (HTTPException 404 [20219, 21153, 19981, 23384, 22312]), s)
      | Some task \<Rightarrow> (Inr [20219, 21153, 24050, 21024, 38500], s\<lparr>tasks := (tasks s)(tid := None)\<rparr>))"

subsection \<open>The pattern in words, and the examples' runtime\<close>



definition sample_runtime :: "(byte list \<Rightarrow> exn + json) \<Rightarrow> runtime" where
  "sample_runtime loads =
     \<lparr>uni_alnum = (\<lambda>c. False),
      utf8_ignore = (\<lambda>bs. map unat (filter (\<lambda>b. b < 128) bs)),
      json_loads = loads,
      repr_of = (\<lambda>v. ascii ''{...}''),
      raised = (\<lambda>f. Exn (ascii ''TypeError'') (ascii ''unsupported operand''))\<rparr>"

definition no_json :: "byte list \<Rightarrow> exn + json" where
  "no_json bs = Inl (Exn (ascii ''JSONDecodeError'') (ascii ''Expecting value''))"

section \<open>Operations of the interpreter on decoded values\<close>

text \<open>
  The operations the engine applies to what \<^verbatim>\<open>json.loads\<close> returned, with the Python
  semantics for every type of value: the result, or the fault the interpreter raises.
\<close>

definition truthy :: "json \<Rightarrow> bool" where
  "truthy v =
     (case v of
        JNull \<Rightarrow> False
      | JBool b \<Rightarrow> b
      | JInt i \<Rightarrow> i \<noteq> 0
      | JFloat r \<Rightarrow> r \<noteq> ascii ''0.0'' \<and> r \<noteq> ascii ''-0.0''
      | JStr s \<Rightarrow> s \<noteq> []
      | JArr xs \<Rightarrow> xs \<noteq> []
      | JObj kvs \<Rightarrow> kvs \<noteq> [])"

definition py_get :: "json \<Rightarrow> pystr \<Rightarrow> json \<Rightarrow> fault + json" where
  "py_get v k dflt =
     (case v of
        JObj kvs \<Rightarrow> Inr (case map_of kvs k of Some x \<Rightarrow> x | None \<Rightarrow> dflt)
      | _ \<Rightarrow> Inl (NoAttribute v (ascii ''get'')))"

definition py_first :: "json \<Rightarrow> fault + json" where
  "py_first v =
     (case v of
        JArr (x # xs) \<Rightarrow> Inr x
      | JStr (c # cs) \<Rightarrow> Inr (JStr [c])
      | _ \<Rightarrow> Inl (NotSubscriptable v (JInt 0)))"

definition py_iter :: "json \<Rightarrow> fault + json list" where
  "py_iter v =
     (case v of
        JArr xs \<Rightarrow> Inr xs
      | JStr s \<Rightarrow> Inr (map (\<lambda>c. JStr [c]) s)
      | JObj kvs \<Rightarrow> Inr (map (\<lambda>kv. JStr (fst kv)) kvs)
      | _ \<Rightarrow> Inl (NotIterable v))"

definition py_contains :: "pystr \<Rightarrow> json \<Rightarrow> fault + bool" where
  "py_contains k v =
     (case v of
        JObj kvs \<Rightarrow> Inr (k \<in> set (map fst kvs))
      | JArr xs \<Rightarrow> Inr (JStr k \<in> set xs)
      | JStr s \<Rightarrow> Inr (sublist k s)
      | _ \<Rightarrow> Inl (NotContainer v))"

definition py_item :: "json \<Rightarrow> pystr \<Rightarrow> fault + json" where
  "py_item v k =
     (case v of
        JObj kvs \<Rightarrow> (case map_of kvs k of Some x \<Rightarrow> Inr x | None \<Rightarrow> Inl (NotSubscriptable v (JStr k)))
      | _ \<Rightarrow> Inl (NotSubscriptable v (JStr k)))"

definition py_len :: "json \<Rightarrow> fault + nat" where
  "py_len v =
     (case v of
        JStr s \<Rightarrow> Inr (length s)
      | JArr xs \<Rightarrow> Inr (length xs)
      | JObj kvs \<Rightarrow> Inr (length kvs)
      | _ \<Rightarrow> Inl (NoLen v))"

definition py_slice :: "nat \<Rightarrow> json \<Rightarrow> fault + json" where
  "py_slice n v =
     (case v of
        JStr s \<Rightarrow> Inr (JStr (take n s))
      | JArr xs \<Rightarrow> Inr (JArr (take n xs))
      | _ \<Rightarrow> Inl (NoSlice v))"

definition py_str :: "runtime \<Rightarrow> json \<Rightarrow> pystr" where
  "py_str rt v =
     (case v of
        JNull \<Rightarrow> ascii ''None''
      | JBool b \<Rightarrow> (if b then ascii ''True'' else ascii ''False'')
      | JInt i \<Rightarrow> str_of_int i
      | JFloat r \<Rightarrow> r
      | JStr s \<Rightarrow> s
      | _ \<Rightarrow> repr_of rt v)"

fun is_str :: "json \<Rightarrow> bool" where
  "is_str (JStr s) = True"
| "is_str v = False"

fun str_of :: "json \<Rightarrow> pystr" where
  "str_of (JStr s) = s"
| "str_of v = []"

fun join_with :: "pystr \<Rightarrow> pystr list \<Rightarrow> pystr" where
  "join_with sep [] = []"
| "join_with sep [x] = x"
| "join_with sep (x # y # rest) = x @ sep @ join_with sep (y # rest)"

definition py_join :: "pystr \<Rightarrow> json list \<Rightarrow> fault + pystr" where
  "py_join sep xs = (if list_all is_str xs then Inr (join_with sep (map str_of xs)) else Inl (NotJoinable xs))"

definition and_then :: "'e + 'a \<Rightarrow> ('a \<Rightarrow> 'e + 'b) \<Rightarrow> 'e + 'b" where
  "and_then m f = (case m of Inl e \<Rightarrow> Inl e | Inr x \<Rightarrow> f x)"

definition exn_text :: "exn \<Rightarrow> pystr" where
  "exn_text x = exn_name x @ ascii '': '' @ exn_str x"

section \<open>The generation engine\<close>

text \<open>
  \<^verbatim>\<open>_execute_generation\<close>, for one job. The hosts are a parameter (the source loops over
  the constant \<^verbatim>\<open>GOOGLE_API_HOSTS\<close>), and so is the network: \<open>net\<close> says what the streamed
  POST of a request does. It raises before a response is there (\<open>Raises\<close>), or it
  returns a status code and delivers the chunks of the body, after which the stream
  ends or raises (\<open>Responds\<close>). The exceptions are those that \<^verbatim>\<open>except Exception\<close>
  catches.

  The state of the engine is the job, that is \<^verbatim>\<open>tasks[task_id]\<close>, which is taken to stay
  in the store while the task runs; the variable \<^verbatim>\<open>last_error\<close>; the requests sent so
  far; and \<open>polls\<close>, the states of the job at the points where the task waits: for the
  connection, for the next chunk, on leaving the \<^verbatim>\<open>async with\<close> blocks, and at its end.
  These are the states \<^verbatim>\<open>get_task_status\<close> can return, in this order.
\<close>

record http_request =
  url :: pystr
  req_headers :: "(pystr \<times> pystr) list"
  json_body :: json

datatype http_outcome = Raises exn | Responds int "byte list list" "exn option"

record engine =
  task :: job
  polls :: "job list"
  sent :: "http_request list"
  last_error :: "pystr option"

definition set_progress :: "int \<Rightarrow> engine \<Rightarrow> engine" where
  "set_progress p e = e\<lparr>task := (task e)\<lparr>progress := p\<rparr>\<rparr>"

definition suspend :: "engine \<Rightarrow> engine" where
  "suspend e = e\<lparr>polls := polls e @ [task e]\<rparr>"

definition fail_with :: "pystr \<Rightarrow> engine \<Rightarrow> engine" where
  "fail_with msg e = e\<lparr>last_error := Some msg\<rparr>"

text \<open>
  Python's \<^verbatim>\<open>float\<close> is IEEE 754 binary64: every operation returns the exact result
  rounded to 53 significant bits, ties to the even significand. \<open>round_even\<close> is that
  rounding of a real to an integer, and \<open>fl64 x\<close> rounds \<open>x\<close> to a multiple of
  \<open>2 ^ (e - 52)\<close>, where \<open>2 ^ e \<le> x < 2 ^ (e + 1)\<close>. Only values that are zero
  or at least \<open>1 / 50000\<close> occur below, so subnormal numbers play no part; the exponent
  is not bounded above, a byte count large enough to overflow being out of reach.
\<close>

definition round_even :: "real \<Rightarrow> int" where
  "round_even y =
     (if y - of_int \<lfloor>y\<rfloor> < 1 / 2 then \<lfloor>y\<rfloor>
      else if 1 / 2 < y - of_int \<lfloor>y\<rfloor> then \<lfloor>y\<rfloor> + 1
      else if even \<lfloor>y\<rfloor> then \<lfloor>y\<rfloor> else \<lfloor>y\<rfloor> + 1)"

definition fl64 :: "real \<Rightarrow> real" where
  "fl64 x =
     (if x \<le> 0 then 0
      else of_int (round_even (x / 2 powr (of_int \<lfloor>log 2 x\<rfloor> - 52))) * 2 powr (of_int \<lfloor>log 2 x\<rfloor> - 52))"

text \<open>
  \<^verbatim>\<open>min(30 + int(len(content) / 50000 * 60), 90)\<close> (line 216): the true division of two
  integers is their quotient rounded once, the product with 60 is rounded again, and
  \<^verbatim>\<open>int\<close> truncates the result, which is not negative.
\<close>

definition stream_progress :: "nat \<Rightarrow> int" where
  "stream_progress n = min (30 + \<lfloor>fl64 (fl64 (real n / 50000) * 60)\<rfloor>) 90"

fun read_chunks :: "byte list list \<Rightarrow> byte list \<Rightarrow> engine \<Rightarrow> byte list \<times> engine" where
  "read_chunks [] content e = (content, e)"
| "read_chunks (chunk # rest) content e =
     read_chunks rest (content @ chunk)
       (suspend (set_progress (stream_progress (length (content @ chunk))) e))"

text \<open>The loop over the parts of the first candidate (lines 240 to 252).\<close>

fun scan_parts :: "runtime \<Rightarrow> json list \<Rightarrow> pystr option \<Rightarrow> json list \<Rightarrow> fault + pystr option \<times> json list" where
  "scan_parts rt [] image_data text_response = Inr (image_data, text_response)"
| "scan_parts rt (part # rest) image_data text_response =
     (case py_contains (ascii ''inlineData'') part of
        Inl f \<Rightarrow> Inl f
      | Inr has_inline \<Rightarrow>
          if has_inline then
            (case py_item part (ascii ''inlineData'') of
               Inl f \<Rightarrow> Inl f
             | Inr inline_data \<Rightarrow>
                 (case py_get inline_data (ascii ''mimeType'') (JStr (ascii ''image/png'')) of
                    Inl f \<Rightarrow> Inl f
                  | Inr mime_type \<Rightarrow>
                      (case py_get inline_data (ascii ''data'') (JStr []) of
                         Inl f \<Rightarrow> Inl f
                       | Inr base64_data \<Rightarrow>
                           (case py_len base64_data of
                              Inl f \<Rightarrow> Inl f
                            | Inr n \<Rightarrow>
                                scan_parts rt rest
                                  (Some (ascii ''data:'' @ py_str rt mime_type @ ascii '';base64,'' @
                                         py_str rt base64_data))
                                  text_response))))
          else
            (case py_contains (ascii ''text'') part of
               Inl f \<Rightarrow> Inl f
             | Inr has_text \<Rightarrow>
                 if has_text then
                   (case py_item part (ascii ''text'') of
                      Inl f \<Rightarrow> Inl f
                    | Inr t \<Rightarrow> scan_parts rt rest image_data (text_response @ [t]))
                 else scan_parts rt rest image_data text_response))"

text \<open>
  Lines 226 to 252: what is read from the decoded body, up to the test of
  \<^verbatim>\<open>image_data\<close>. Without candidates it is the message for \<^verbatim>\<open>last_error\<close>; with them,
  the image data and the texts that the loop over the parts found.
\<close>

datatype reading = NoResult pystr | Scanned "pystr option" "json list"

definition read_response :: "runtime \<Rightarrow> json \<Rightarrow> fault + reading" where
  "read_response rt data =
     and_then (py_get data (ascii ''candidates'') (JArr [])) (\<lambda>candidates.
       if \<not> truthy candidates then
         and_then (py_get data (ascii ''promptFeedback'') (JObj [])) (\<lambda>prompt_feedback.
         and_then (py_get prompt_feedback (ascii ''blockReason'') (JStr [])) (\<lambda>block_reason.
           Inr (NoResult
             (if truthy block_reason then
                [20869, 23481, 34987, 23433, 20840, 31574, 30053, 38459, 27490] @ ascii '': '' @
                py_str rt block_reason
              else
                [26410, 29983, 25104, 20219, 20309, 32467, 26524] @ ascii '' ('' @ [21709, 24212] @
                ascii '': '' @ take 200 (py_str rt data) @ ascii '')''))))
       else
         and_then (py_first candidates) (\<lambda>candidate.
         and_then (py_get candidate (ascii ''content'') (JObj [])) (\<lambda>content.
         and_then (py_get content (ascii ''parts'') (JArr [])) (\<lambda>content_parts.
         and_then (py_iter content_parts) (\<lambda>ps.
         and_then (scan_parts rt ps None []) (\<lambda>found.
           Inr (Scanned (fst found) (snd found))))))))"

text \<open>
  Lines 254 to 267. It returns whether the engine returns, and the engine as it is then.
  The job is written before the texts are joined.
\<close>

definition conclude :: "runtime \<Rightarrow> pystr option \<Rightarrow> json list \<Rightarrow> engine \<Rightarrow> bool \<times> engine" where
  "conclude rt image_data text_response e =
     (if image_data \<noteq> None \<and> image_data \<noteq> Some [] then
        (let e1 = e\<lparr>task := (task e)\<lparr>status := Completed, progress := 100,
                                       result_base64 := image_data\<rparr>\<rparr>
         in if text_response \<noteq> [] then
              (case py_join [10] text_response of
                 Inl f \<Rightarrow> (False, fail_with (exn_text (raised rt f)) e1)
               | Inr joined \<Rightarrow> (True, e1\<lparr>task := (task e1)\<lparr>thinking := Some joined\<rparr>\<rparr>))
            else (True, e1))
      else
        (let msg = [21709, 24212, 20013, 27809, 26377, 22270, 20687, 25968, 25454]
         in if text_response \<noteq> [] then
              (case py_slice 100 (hd text_response) of
                 Inl f \<Rightarrow> (False, fail_with (exn_text (raised rt f)) e)
               | Inr shown \<Rightarrow>
                   (False, fail_with (msg @ ascii '' ('' @ [27169, 22411, 22238, 22797] @ ascii '': '' @
                                      py_str rt shown @ ascii ''...)'') e))
            else (False, fail_with msg e)))"

text \<open>One pass of the loop over the hosts (lines 189 to 272).\<close>

definition request_for :: "generation \<Rightarrow> pystr \<Rightarrow> http_request" where
  "request_for g host =
     \<lparr>url = host @ ascii ''/v1beta/models/'' @ model_name g @ ascii '':generateContent'',
      req_headers = headers g, json_body = payload g\<rparr>"

definition attempt :: "runtime \<Rightarrow> (http_request \<Rightarrow> http_outcome) \<Rightarrow> generation \<Rightarrow> pystr \<Rightarrow> engine \<Rightarrow> bool \<times> engine" where
  "attempt rt net g host e =
     (let e1 = suspend (set_progress 30 e);
          e2 = e1\<lparr>sent := sent e1 @ [request_for g host]\<rparr>
      in case net (request_for g host) of
           Raises x \<Rightarrow> (False, suspend (fail_with (exn_text x) e2))
         | Responds status_code chunks broken \<Rightarrow>
             if status_code \<noteq> 200 then
               (case broken of
                  Some x \<Rightarrow> (False, suspend (fail_with (exn_text x) e2))
                | None \<Rightarrow>
                    (False, suspend (fail_with
                       (ascii ''API'' @ [38169, 35823] @ ascii '' ('' @ str_of_int status_code @
                        ascii ''): '' @ take 300 (concat (map (utf8_ignore rt) chunks))) e2)))
             else
               (let streamed = read_chunks chunks [] e2;
                    content = fst streamed;
                    e3 = snd streamed
                in case broken of
                     Some x \<Rightarrow> (False, suspend (fail_with (exn_text x) e3))
                   | None \<Rightarrow>
                       (let e4 = set_progress 95 e3
                        in case json_loads rt content of
                             Inl x \<Rightarrow> (False, suspend (fail_with (exn_text x) e4))
                           | Inr data \<Rightarrow>
                               (case read_response rt data of
                                  Inl f \<Rightarrow> (False, suspend (fail_with (exn_text (raised rt f)) e4))
                                | Inr (NoResult msg) \<Rightarrow> (False, suspend (fail_with msg e4))
                                | Inr (Scanned image_data text_response) \<Rightarrow>
                                    (let ended = conclude rt image_data text_response e4
                                     in (fst ended, suspend (snd ended)))))))"

text \<open>The loop, and lines 274 to 277 after it.\<close>

fun try_hosts :: "runtime \<Rightarrow> (http_request \<Rightarrow> http_outcome) \<Rightarrow> generation \<Rightarrow> pystr list \<Rightarrow> engine \<Rightarrow> bool \<times> engine" where
  "try_hosts rt net g [] e = (False, e)"
| "try_hosts rt net g (host # rest) e =
     (let tried = attempt rt net g host e
      in if fst tried then (True, snd tried) else try_hosts rt net g rest (snd tried))"

definition execute_generation :: "runtime \<Rightarrow> pystr list \<Rightarrow> (http_request \<Rightarrow> http_outcome) \<Rightarrow> generation \<Rightarrow> job \<Rightarrow> engine" where
  "execute_generation rt hosts net g created =
     (let looped = try_hosts rt net g hosts
                     \<lparr>task = created, polls = [created], sent = [], last_error = None\<rparr>;
          e = snd looped
      in if fst looped then e
         else suspend (e\<lparr>task := (task e)\<lparr>status := Failed,
                 error := Some (case last_error e of
                                  None \<Rightarrow> [25152, 26377, 20027, 26426, 37117, 22833, 36133]
                                | Some m \<Rightarrow> if m = [] then [25152, 26377, 20027, 26426, 37117, 22833, 36133]
                                            else m)\<rparr>\<rparr>))"

section \<open>What one attempt amounts to\<close>

text \<open>
  Definitions that are not in the source: they say in closed form what the source does,
  and the lemmas \<open>attempt_summary\<close> and \<open>attempt_polls\<close> below prove that
  \<open>attempt\<close> does exactly that. \<open>running n chunks\<close> is \<^verbatim>\<open>len(content)\<close> after each
  chunk. \<open>judge\<close> is how one response ends an attempt: \<open>Won\<close> with the image data and the
  joined text when the engine returns, \<open>Lost\<close> with the reason recorded in
  \<^verbatim>\<open>last_error\<close> when it goes on to the next host, \<open>WroteThenRaised\<close> when image data was
  found and written to the job and joining the text then raised, so that the attempt is
  lost all the same. \<open>settle\<close> is what the verdict does to the engine, \<open>reach\<close> the state
  in which the verdict arrives.
\<close>

fun running :: "nat \<Rightarrow> byte list list \<Rightarrow> nat list" where
  "running n [] = []"
| "running n (chunk # rest) = (n + length chunk) # running (n + length chunk) rest"

datatype summary = Won pystr "pystr option" | WroteThenRaised pystr pystr | Lost pystr

fun is_won :: "summary \<Rightarrow> bool" where
  "is_won (Won img joined) = True"
| "is_won v = False"

definition no_image_reason :: "runtime \<Rightarrow> json list \<Rightarrow> pystr" where
  "no_image_reason rt text_response =
     (if text_response \<noteq> [] then
        (case py_slice 100 (hd text_response) of
           Inl f \<Rightarrow> exn_text (raised rt f)
         | Inr shown \<Rightarrow>
             [21709, 24212, 20013, 27809, 26377, 22270, 20687, 25968, 25454] @ ascii '' ('' @
             [27169, 22411, 22238, 22797] @ ascii '': '' @ py_str rt shown @ ascii ''...)'')
      else [21709, 24212, 20013, 27809, 26377, 22270, 20687, 25968, 25454])"

definition judge_parts :: "runtime \<Rightarrow> pystr option \<Rightarrow> json list \<Rightarrow> summary" where
  "judge_parts rt image_data text_response =
     (case image_data of
        None \<Rightarrow> Lost (no_image_reason rt text_response)
      | Some img \<Rightarrow>
          if img = [] then Lost (no_image_reason rt text_response)
          else if text_response = [] then Won img None
          else (case py_join [10] text_response of
                  Inl f \<Rightarrow> WroteThenRaised img (exn_text (raised rt f))
                | Inr joined \<Rightarrow> Won img (Some joined)))"

definition judge :: "runtime \<Rightarrow> http_outcome \<Rightarrow> summary" where
  "judge rt out =
     (case out of
        Raises x \<Rightarrow> Lost (exn_text x)
      | Responds status_code chunks broken \<Rightarrow>
          (case broken of
             Some x \<Rightarrow> Lost (exn_text x)
           | None \<Rightarrow>
               if status_code \<noteq> 200 then
                 Lost (ascii ''API'' @ [38169, 35823] @ ascii '' ('' @ str_of_int status_code @
                       ascii ''): '' @ take 300 (concat (map (utf8_ignore rt) chunks)))
               else
                 (case json_loads rt (concat chunks) of
                    Inl x \<Rightarrow> Lost (exn_text x)
                  | Inr data \<Rightarrow>
                      (case read_response rt data of
                         Inl f \<Rightarrow> Lost (exn_text (raised rt f))
                       | Inr (NoResult msg) \<Rightarrow> Lost msg
                       | Inr (Scanned image_data text_response) \<Rightarrow>
                           judge_parts rt image_data text_response))))"

definition settle :: "summary \<Rightarrow> engine \<Rightarrow> engine" where
  "settle v e =
     (case v of
        Won img joined \<Rightarrow>
          (let e1 = e\<lparr>task := (task e)\<lparr>status := Completed, progress := 100,
                                        result_base64 := Some img\<rparr>\<rparr>
           in case joined of
                None \<Rightarrow> e1
              | Some t \<Rightarrow> e1\<lparr>task := (task e1)\<lparr>thinking := Some t\<rparr>\<rparr>)
      | WroteThenRaised img m \<Rightarrow>
          fail_with m (e\<lparr>task := (task e)\<lparr>status := Completed, progress := 100,
                                         result_base64 := Some img\<rparr>\<rparr>)
      | Lost m \<Rightarrow> fail_with m e)"

definition reach :: "http_outcome \<Rightarrow> engine \<Rightarrow> engine" where
  "reach out e =
     (case out of
        Raises x \<Rightarrow> e
      | Responds status_code chunks broken \<Rightarrow>
          if status_code \<noteq> 200 then e
          else if broken = None then set_progress 95 (snd (read_chunks chunks [] e))
          else snd (read_chunks chunks [] e))"


fun reason :: "summary \<Rightarrow> pystr" where
  "reason (Lost m) = m"
| "reason (WroteThenRaised img m) = m"
| "reason (Won img joined) = []"


section \<open>Concrete examples\<close>

text \<open>
  Response bodies, a \<^verbatim>\<open>json.loads\<close> that knows them (after leading spaces), a task and
  networks for the concrete examples.
\<close>

definition bytes_of :: "string \<Rightarrow> byte list" where
  "bytes_of s = map of_char s"

definition image_body :: "byte list" where
  "image_body = bytes_of
     ''{\"candidates\": [{\"content\": {\"parts\": [{\"text\": \"here\"}, {\"inlineData\": {\"mimeType\": \"image/png\", \"data\": \"AAAA\"}}]}}]}''"

definition blocked_body :: "byte list" where
  "blocked_body = bytes_of ''{\"promptFeedback\": {\"blockReason\": \"SAFETY\"}}''"

definition odd_text_body :: "byte list" where
  "odd_text_body = bytes_of
     ''{\"candidates\": [{\"content\": {\"parts\": [{\"inlineData\": {\"data\": \"AAAA\"}}, {\"text\": 5}]}}]}''"

definition two_images_body :: "byte list" where
  "two_images_body = bytes_of
     ''{\"candidates\": [{\"content\": {\"parts\": [{\"inlineData\": {\"mimeType\": \"image/png\", \"data\": \"AAAA\"}}, {\"inlineData\": {\"mimeType\": \"image/jpeg\"}}]}}]}''"

definition sample_loads :: "byte list \<Rightarrow> exn + json" where
  "sample_loads bs =
     (let body = dropWhile (\<lambda>b. b = 32) bs in
      if body = bytes_of ''{}'' then Inr (JObj [])
      else if body = blocked_body then
        Inr (JObj [(ascii ''promptFeedback'', JObj [(ascii ''blockReason'', JStr (ascii ''SAFETY''))])])
      else if body = image_body then
        Inr (JObj [(ascii ''candidates'', JArr [JObj [(ascii ''content'', JObj [(ascii ''parts'',
          JArr [JObj [(ascii ''text'', JStr (ascii ''here''))],
                JObj [(ascii ''inlineData'', JObj [(ascii ''mimeType'', JStr (ascii ''image/png'')),
                                                   (ascii ''data'', JStr (ascii ''AAAA''))])]])])]])])
      else if body = odd_text_body then
        Inr (JObj [(ascii ''candidates'', JArr [JObj [(ascii ''content'', JObj [(ascii ''parts'',
          JArr [JObj [(ascii ''inlineData'', JObj [(ascii ''data'', JStr (ascii ''AAAA''))])],
                JObj [(ascii ''text'', JInt 5)]])])]])])
      else if body = two_images_body then
        Inr (JObj [(ascii ''candidates'', JArr [JObj [(ascii ''content'', JObj [(ascii ''parts'',
          JArr [JObj [(ascii ''inlineData'', JObj [(ascii ''mimeType'', JStr (ascii ''image/png'')),
                                                   (ascii ''data'', JStr (ascii ''AAAA''))])],
                JObj [(ascii ''inlineData'', JObj [(ascii ''mimeType'', JStr (ascii ''image/jpeg''))])]])])]])])
      else Inl (Exn (ascii ''JSONDecodeError'') (ascii ''Expecting value'')))"


definition sample_generation :: generation where
  "sample_generation =
     \<lparr>task_id = ascii ''id-1'', model_name = ascii ''gemini-2.5-flash-image'',
      payload = JObj [(ascii ''contents'', JArr [JObj [(ascii ''parts'', JArr [text_part (ascii ''a cat'')])]])],
      headers = [(ascii ''Content-Type'', ascii ''application/json''),
                 (ascii ''x-goog-api-key'', ascii ''sk-1''),
                 (ascii ''Connection'', ascii ''keep-alive'')]\<rparr>"

definition sample_job :: job where
  "sample_job =
     \<lparr>status = Processing, progress = 10, result_url = None, result_base64 = None, error = None,
      created_at = ascii ''2025-01-01T00:00:00'', job_prompt = ascii ''a cat'',
      job_model = ascii ''gemini-2.5-flash-image'', thinking = None\<rparr>"

text \<open>A network in which the first mirror blocks the prompt and every other host returns an image.\<close>

definition first_blocked :: "http_request \<Rightarrow> http_outcome" where
  "first_blocked r =
     (if url r = url (request_for sample_generation (GOOGLE_API_HOSTS ! 0))
      then Responds 200 [blocked_body] None
      else Responds 200 [image_body] None)"


text \<open>A network in which every host blocks the prompt.\<close>

definition all_blocked :: "http_request \<Rightarrow> http_outcome" where
  "all_blocked r = Responds 200 [blocked_body] None"


text \<open>
  The progress values of one attempt in closed form: 30, the values written while the
  body is streamed, and the value the attempt ends with. \<open>tried\<close> are the hosts the loop
  gets to. Neither is in the source.
\<close>

definition streamed :: "http_outcome \<Rightarrow> int list" where
  "streamed out =
     (case out of
        Raises x \<Rightarrow> []
      | Responds status_code chunks broken \<Rightarrow>
          if status_code \<noteq> 200 then [] else map stream_progress (running 0 chunks))"

definition end_progress :: "runtime \<Rightarrow> http_outcome \<Rightarrow> int" where
  "end_progress rt out =
     (case judge rt out of
        Lost m \<Rightarrow>
          (case out of
             Raises x \<Rightarrow> 30
           | Responds status_code chunks broken \<Rightarrow>
               if status_code \<noteq> 200 then 30
               else if broken = None then 95
               else last (30 # map stream_progress (running 0 chunks)))
      | _ \<Rightarrow> 100)"

definition attempt_progress :: "runtime \<Rightarrow> http_outcome \<Rightarrow> int list" where
  "attempt_progress rt out = 30 # streamed out @ [end_progress rt out]"

definition padded_empty :: "http_request \<Rightarrow> http_outcome" where
  "padded_empty r = Responds 200 [replicate 1000 32, replicate 60000 32, bytes_of ''{}''] None"

fun tried :: "runtime \<Rightarrow> (http_request \<Rightarrow> http_outcome) \<Rightarrow> generation \<Rightarrow> pystr list \<Rightarrow> pystr list" where
  "tried rt net g [] = []"
| "tried rt net g (host # rest) =
     host # (if is_won (judge rt (net (request_for g host))) then [] else tried rt net g rest)"

definition odd_text :: "http_request \<Rightarrow> http_outcome" where
  "odd_text r = Responds 200 [odd_text_body] None"

text \<open>
  A network in which the first mirror returns image data beside a text item that is the
  number 5, and every other host blocks the prompt.
\<close>

definition odd_then_blocked :: "http_request \<Rightarrow> http_outcome" where
  "odd_then_blocked r =
     (if url r = url (request_for sample_generation (GOOGLE_API_HOSTS ! 0))
      then Responds 200 [odd_text_body] None
      else Responds 200 [blocked_body] None)"






section \<open>Verifying a credential\<close>





section \<open>Properties of the credential\<close>

lemma ascii_dots: "ascii ''...'' = [46, 46, 46]"
  by (simp add: ascii_def)

lemma sublist_window:
  assumes m: "m = p @ d @ q" and sub: "sublist k m"
    and lp: "length p + length d + length q \<le> length k + (length p)"
    and lq: "length p + length d + length q \<le> length k + (length q)"
  shows "sublist d k"
proof -
  from sub obtain a b where ab: "m = a @ k @ b"
    by (auto simp: sublist_def)
  have len: "length p + length d + length q = length a + length k + length b"
    using m ab by (metis length_append add.assoc)
  have la: "length a \<le> length p" using lp len by simp
  have lb: "length b \<le> length q" using lq len by simp
  have "d = take (length d) (drop (length p) m)"
    using m by simp
  also have "drop (length p) m = drop (length p - length a) (k @ b)"
    using ab la by simp
  also have "take (length d) (drop (length p - length a) (k @ b))
      = take (length d) (drop (length p - length a) k)"
    using len la lb by simp
  finally have "d = take (length d) (drop (length p - length a) k)" .
  then have "k = take (length p - length a) k @ d @ drop (length d) (drop (length p - length a) k)"
    by (metis append_take_drop_id)
  then show ?thesis
    unfolding sublist_def by blast
qed

text \<open>
  C6, as the code has it. After \<^verbatim>\<open>set_api_key\<close> (whether or not the file could be
  written), \<^verbatim>\<open>check_api_key\<close> reports \<^verbatim>\<open>has_key\<close> exactly when the secret is not the
  empty string. A secret longer than 12 code points is masked as its first 8, three
  dots and its last 4; the mask holds the whole secret only when the secret is at most
  15 long and itself holds three dots in a row, so never when it is longer than 15.
  A non-empty secret of at most 12 code points is masked as the placeholder
  \<^verbatim>\<open>***\<close>, and the empty secret as the empty string.
\<close>

theorem C6_set_then_check:
  "fst (check_api_key (snd (set_api_key fs k s))) = (k \<noteq> []) \<and>
   (length k > 12 \<longrightarrow>
      snd (check_api_key (snd (set_api_key fs k s))) = take 8 k @ ascii ''...'' @ suffix_from 4 k \<and>
      (sublist k (snd (check_api_key (snd (set_api_key fs k s)))) \<longrightarrow>
         length k \<le> 15 \<and> sublist (ascii ''...'') k)) \<and>
   (k \<noteq> [] \<and> length k \<le> 12 \<longrightarrow>
      snd (check_api_key (snd (set_api_key fs k s))) = ascii ''***'') \<and>
   (k = [] \<longrightarrow> snd (check_api_key (snd (set_api_key fs k s))) = [])"
proof -
  have key: "user_api_key (snd (set_api_key fs k s)) = k"
    by (simp add: set_api_key_def Let_def split: option.splits)
  have mask: "snd (check_api_key (snd (set_api_key fs k s))) =
      (if k \<noteq> [] then (if length k > 12 then take 8 k @ ascii ''...'' @ suffix_from 4 k
                        else ascii ''***'') else [])"
    by (simp add: check_api_key_def Let_def key)
  have has: "fst (check_api_key (snd (set_api_key fs k s))) = (k \<noteq> [])"
    by (simp add: check_api_key_def Let_def key)
  have hidden: "length k \<le> 15 \<and> sublist (ascii ''...'') k"
    if long: "length k > 12" and sub: "sublist k (take 8 k @ ascii ''...'' @ suffix_from 4 k)"
  proof -
    have l15: "length (take 8 k @ ascii ''...'' @ suffix_from 4 k) = 15"
      using long by (simp add: ascii_dots suffix_from_def)
    have le: "length k \<le> 15"
      using sublist_length_le [OF sub] l15 by simp
    have "sublist (ascii ''...'') k"
    proof (rule sublist_window [OF refl sub])
      show "length (take 8 k) + length (ascii ''...'') + length (suffix_from 4 k)
          \<le> length k + length (take 8 k)"
        using long by (simp add: ascii_dots suffix_from_def)
      show "length (take 8 k) + length (ascii ''...'') + length (suffix_from 4 k)
          \<le> length k + length (suffix_from 4 k)"
        using long by (simp add: ascii_dots suffix_from_def)
    qed
    with le show ?thesis by simp
  qed
  show ?thesis
    using has mask hidden by auto
qed

theorem C6_set_then_check_witness:
  "fst (check_api_key (snd (set_api_key None (ascii ''sk-0123456789abcdef'')
      \<lparr>user_api_key = [], api_key_file = None, tasks = Map.empty\<rparr>))) \<and>
   snd (check_api_key (snd (set_api_key None (ascii ''sk-0123456789abcdef'')
      \<lparr>user_api_key = [], api_key_file = None, tasks = Map.empty\<rparr>))) = ascii ''sk-01234...cdef'' \<and>
   \<not> sublist (ascii ''sk-0123456789abcdef'')
      (snd (check_api_key (snd (set_api_key None (ascii ''sk-0123456789abcdef'')
      \<lparr>user_api_key = [], api_key_file = None, tasks = Map.empty\<rparr>))))"
proof -
  have long: "length (ascii ''sk-0123456789abcdef'') > 12"
    by (simp add: ascii_def)
  have ne: "ascii ''sk-0123456789abcdef'' \<noteq> []"
    by (simp add: ascii_def)
  have m: "take 8 (ascii ''sk-0123456789abcdef'') @ ascii ''...'' @
      suffix_from 4 (ascii ''sk-0123456789abcdef'') = ascii ''sk-01234...cdef''"
    by (simp add: ascii_def suffix_from_def)
  have n15: "\<not> length (ascii ''sk-0123456789abcdef'') \<le> 15"
    by (simp add: ascii_def)
  show ?thesis
    using C6_set_then_check [of None "ascii ''sk-0123456789abcdef''"
      "\<lparr>user_api_key = [], api_key_file = None, tasks = Map.empty\<rparr>"] long ne m n15
    by metis
qed

text \<open>
  C6 as the claim words it fails twice: the empty secret is stored and then reported
  absent, and a 15-character secret with three dots after its first 8 characters is
  its own mask.
\<close>

theorem C6_counterexample:
  "\<not> fst (check_api_key (snd (set_api_key None [] \<lparr>user_api_key = [], api_key_file = None, tasks = Map.empty\<rparr>))) \<and>
   length (ascii ''abcdefgh...wxyz'') > 12 \<and>
   snd (check_api_key (snd (set_api_key None (ascii ''abcdefgh...wxyz'')
      \<lparr>user_api_key = [], api_key_file = None, tasks = Map.empty\<rparr>))) = ascii ''abcdefgh...wxyz'' \<and>
   sublist (ascii ''abcdefgh...wxyz'')
     (snd (check_api_key (snd (set_api_key None (ascii ''abcdefgh...wxyz'')
      \<lparr>user_api_key = [], api_key_file = None, tasks = Map.empty\<rparr>))))"
  by (simp add: check_api_key_def set_api_key_def ascii_def suffix_from_def)

section \<open>Properties of the pattern\<close>

lemma dropWhile_all_iff: "(\<forall>x\<in>set (dropWhile P s). P x) \<longleftrightarrow> (\<forall>x\<in>set s. P x)"
proof
  assume a: "\<forall>x\<in>set (dropWhile P s). P x"
  have "dropWhile P s = []"
  proof (rule ccontr)
    assume ne: "dropWhile P s \<noteq> []"
    then have "\<not> P (hd (dropWhile P s))" by (rule hd_dropWhile)
    moreover have "hd (dropWhile P s) \<in> set (dropWhile P s)" using ne by simp
    ultimately show False using a by blast
  qed
  then show "\<forall>x\<in>set s. P x" by (simp only: dropWhile_eq_Nil_conv)
next
  assume "\<forall>x\<in>set s. P x"
  then show "\<forall>x\<in>set (dropWhile P s). P x"
    by (auto dest: set_dropWhileD)
qed

lemma strip_empty_iff: "strip s = [] \<longleftrightarrow> (\<forall>c\<in>set s. isspace c)"
proof -
  have "strip s = [] \<longleftrightarrow> dropWhile isspace (rev (dropWhile isspace s)) = []"
    unfolding strip_def by (rule rev_is_Nil_conv)
  also have "\<dots> \<longleftrightarrow> (\<forall>x\<in>set (rev (dropWhile isspace s)). isspace x)"
    by (rule dropWhile_eq_Nil_conv)
  also have "\<dots> \<longleftrightarrow> (\<forall>x\<in>set (dropWhile isspace s). isspace x)"
    by (simp only: set_rev)
  also have "\<dots> \<longleftrightarrow> (\<forall>c\<in>set s. isspace c)"
    by (rule dropWhile_all_iff)
  finally show ?thesis .
qed











section \<open>Properties of the request builder and of submission\<close>













text \<open>
  C5. A request made while the credential is the empty string, or whose prompt is empty
  or all whitespace, raises \<^verbatim>\<open>HTTPException(400)\<close> and leaves the globals, the job
  store among them, as they were.
\<close>

theorem C5_rejected_before_store:
  assumes "user_api_key s = [] \<or> (\<forall>c\<in>set (prompt request). isspace c)"
  shows "\<exists>detail. generate_image rt new_id now request s = (Inl (HTTPException 400 detail), s)"
  using assms by (auto simp: generate_image_def strip_empty_iff)






theorem C5_rejected_before_store_witness:
  "list_all isspace (ascii ''  '' @ [9, 12288]) \<and>
   generate_image (sample_runtime no_json) (ascii ''id-1'') (ascii ''2025-01-01T00:00:00'')
     \<lparr>prompt = ascii ''  '' @ [9, 12288], aspect_ratio = None, model = ascii ''nano-banana'',
      reference_images = None, image_size = None\<rparr>
     \<lparr>user_api_key = ascii ''sk-1'', api_key_file = None, tasks = Map.empty\<rparr> =
   (Inl (HTTPException 400 [25552, 31034, 35789, 19981, 33021, 20026, 31354]),
    \<lparr>user_api_key = ascii ''sk-1'', api_key_file = None, tasks = Map.empty\<rparr>) \<and>
   generate_image (sample_runtime no_json) (ascii ''id-1'') (ascii ''2025-01-01T00:00:00'')
     \<lparr>prompt = ascii ''a cat'', aspect_ratio = None, model = ascii ''nano-banana'',
      reference_images = None, image_size = None\<rparr>
     \<lparr>user_api_key = [], api_key_file = None, tasks = Map.empty\<rparr> =
   (Inl (HTTPException 400 ([35831, 20808, 35774, 32622] @ ascii ''API'' @ [23494, 38053])),
    \<lparr>user_api_key = [], api_key_file = None, tasks = Map.empty\<rparr>)"
proof -
  have sp: "list_all isspace (ascii ''  '' @ [9, 12288])"
    by (simp add: ascii_def isspace_def)
  then have blank: "\<forall>c\<in>set (ascii ''  '' @ [9, 12288]). isspace c"
    by (simp only: list_all_iff)
  have key: "ascii ''sk-1'' \<noteq> []" by (simp add: ascii_def)
  have st: "strip (ascii ''  '' @ [9, 12288]) = []"
    using blank by (simp only: strip_empty_iff)
  show ?thesis
    using C5_rejected_before_store [of
      "\<lparr>user_api_key = ascii ''sk-1'', api_key_file = None, tasks = Map.empty\<rparr>"
      "\<lparr>prompt = ascii ''  '' @ [9, 12288], aspect_ratio = None, model = ascii ''nano-banana'',
        reference_images = None, image_size = None\<rparr>"
      "sample_runtime no_json" "ascii ''id-1''" "ascii ''2025-01-01T00:00:00''"] sp st key
    by (simp add: generate_image_def)
qed


section \<open>Properties of the engine\<close>

lemma read_chunks_content: "fst (read_chunks chunks content e) = content @ concat chunks"
  by (induction chunks arbitrary: content e) simp_all

lemma conclude_summary:
  "conclude rt image_data text_response e =
     (is_won (judge_parts rt image_data text_response),
      settle (judge_parts rt image_data text_response) e)"
  by (cases image_data)
     (simp_all add: conclude_def judge_parts_def settle_def no_image_reason_def Let_def
        split: sum.splits)

lemma attempt_summary:
  "attempt rt net g host e =
     (is_won (judge rt (net (request_for g host))),
      suspend (settle (judge rt (net (request_for g host)))
        (reach (net (request_for g host))
           ((suspend (set_progress 30 e))\<lparr>sent := sent e @ [request_for g host]\<rparr>))))"
proof (cases "net (request_for g host)")
  case (Raises x)
  then show ?thesis
    by (simp add: attempt_def judge_def settle_def reach_def Let_def suspend_def set_progress_def)
next
  case (Responds code chunks broken)
  show ?thesis
  proof (cases "code = 200")
    case False
    then show ?thesis using Responds
      by (cases broken)
         (simp_all add: attempt_def judge_def settle_def reach_def Let_def suspend_def set_progress_def)
  next
    case True
    note ok = this
    show ?thesis
    proof (cases broken)
      case (Some x)
      then show ?thesis using Responds ok
        by (simp add: attempt_def judge_def settle_def reach_def Let_def suspend_def set_progress_def)
    next
      case None
      show ?thesis
      proof (cases "json_loads rt (concat chunks)")
        case (Inl x)
        then show ?thesis using Responds ok None
          by (simp add: attempt_def judge_def settle_def reach_def Let_def read_chunks_content
                suspend_def set_progress_def)
      next
        case (Inr data)
        show ?thesis
        proof (cases "read_response rt data")
          case (Inl f)
          then show ?thesis using Responds ok None Inr
            by (simp add: attempt_def judge_def settle_def reach_def Let_def read_chunks_content
                  suspend_def set_progress_def)
        next
          case rd: (Inr r)
          show ?thesis
          proof (cases r)
            case (NoResult msg)
            then show ?thesis using Responds ok None Inr rd
              by (simp add: attempt_def judge_def settle_def reach_def Let_def read_chunks_content
                    suspend_def set_progress_def)
          next
            case (Scanned image_data text_response)
            then show ?thesis using Responds ok None Inr rd
              by (simp add: attempt_def judge_def reach_def Let_def read_chunks_content
                    conclude_summary suspend_def set_progress_def)
          qed
        qed
      qed
    qed
  qed
qed

lemma read_chunks_keeps:
  "sent (snd (read_chunks chunks content e)) = sent e"
  "last_error (snd (read_chunks chunks content e)) = last_error e"
  by (induction chunks arbitrary: content e) (simp_all add: suspend_def set_progress_def)

lemma running_Nil: "running n chunks = [] \<longleftrightarrow> chunks = []"
  by (cases chunks) simp_all

lemma read_chunks_task:
  "task (snd (read_chunks chunks content e)) =
     (if chunks = [] then task e
      else (task e)\<lparr>progress := stream_progress (last (running (length content) chunks))\<rparr>)"
proof (induction chunks arbitrary: content e)
  case Nil
  then show ?case by simp
next
  case (Cons c cs)
  let ?e = "suspend (set_progress (stream_progress (length (content @ c))) e)"
  have "task (snd (read_chunks (c # cs) content e)) = task (snd (read_chunks cs (content @ c) ?e))"
    by simp
  also have "\<dots> = (if cs = [] then task ?e
      else (task ?e)\<lparr>progress := stream_progress (last (running (length (content @ c)) cs))\<rparr>)"
    by (rule Cons.IH)
  also have "\<dots> = (task e)\<lparr>progress := stream_progress (last (running (length content) (c # cs)))\<rparr>"
    by (simp add: suspend_def set_progress_def running_Nil)
  finally show ?case by simp
qed

lemma read_chunks_polls:
  "polls (snd (read_chunks chunks content e)) =
     polls e @ map (\<lambda>n. (task e)\<lparr>progress := stream_progress n\<rparr>) (running (length content) chunks)"
proof (induction chunks arbitrary: content e)
  case Nil
  then show ?case by simp
next
  case (Cons c cs)
  show ?case
    by (simp add: Cons.IH suspend_def set_progress_def)
qed

lemma reach_keeps:
  "sent (reach out e) = sent e" "last_error (reach out e) = last_error e"
  by (simp_all add: reach_def read_chunks_keeps set_progress_def split: http_outcome.splits)

lemma settle_sent: "sent (settle v e) = sent e"
  by (simp add: settle_def fail_with_def Let_def split: summary.splits option.splits)

lemma settle_last_error:
  "last_error (settle v e) = (if is_won v then last_error e else Some (reason v))"
  by (cases v) (simp_all add: settle_def fail_with_def Let_def split: option.splits)

lemma settle_won:
  "status (task (settle (Won img joined) e)) = Completed"
  "progress (task (settle (Won img joined) e)) = 100"
  "result_base64 (task (settle (Won img joined) e)) = Some img"
  "error (task (settle (Won img joined) e)) = error (task e)"
  "thinking (task (settle (Won img joined) e)) =
     (case joined of None \<Rightarrow> thinking (task e) | Some t \<Rightarrow> Some t)"
  by (simp_all add: settle_def Let_def split: option.splits)

lemma settle_image:
  assumes "v = Won img joined \<or> v = WroteThenRaised img m"
  shows "status (task (settle v e)) = Completed" "progress (task (settle v e)) = 100"
    "result_base64 (task (settle v e)) = Some img"
  using assms by (auto simp: settle_def fail_with_def Let_def split: option.splits)

lemma suspend_keeps:
  "task (suspend e) = task e" "sent (suspend e) = sent e" "last_error (suspend e) = last_error e"
  "polls (suspend e) = polls e @ [task e]"
  by (simp_all add: suspend_def)

lemma attempt_fst: "fst (attempt rt net g host e) = is_won (judge rt (net (request_for g host)))"
  by (simp add: attempt_summary)

lemma attempt_sent: "sent (snd (attempt rt net g host e)) = sent e @ [request_for g host]"
  by (simp add: attempt_summary suspend_keeps settle_sent reach_keeps)

lemma attempt_last_error:
  "last_error (snd (attempt rt net g host e)) =
     (if is_won (judge rt (net (request_for g host))) then last_error e
      else Some (reason (judge rt (net (request_for g host)))))"
  by (simp add: attempt_summary suspend_keeps settle_last_error reach_keeps suspend_def set_progress_def)

lemma attempt_won:
  assumes "judge rt (net (request_for g host)) = Won img joined"
  shows "status (task (snd (attempt rt net g host e))) = Completed"
    and "progress (task (snd (attempt rt net g host e))) = 100"
    and "result_base64 (task (snd (attempt rt net g host e))) = Some img"
    and "last (polls (snd (attempt rt net g host e))) = task (snd (attempt rt net g host e))"
  by (simp_all add: attempt_summary assms suspend_keeps settle_won)

lemma try_hosts_lost:
  assumes "\<forall>x\<in>set hosts. \<not> is_won (judge rt (net (request_for g x)))"
  shows "fst (try_hosts rt net g hosts e) = False"
    and "sent (snd (try_hosts rt net g hosts e)) = sent e @ map (request_for g) hosts"
    and "last_error (snd (try_hosts rt net g hosts e)) =
           (if hosts = [] then last_error e
            else Some (reason (judge rt (net (request_for g (last hosts))))))"
  using assms
  by (induction hosts arbitrary: e)
     (simp_all add: Let_def attempt_fst attempt_sent attempt_last_error)

lemma try_hosts_append:
  assumes "\<forall>x\<in>set pre. \<not> is_won (judge rt (net (request_for g x)))"
  shows "try_hosts rt net g (pre @ rest) e = try_hosts rt net g rest (snd (try_hosts rt net g pre e))"
  using assms by (induction pre arbitrary: e) (simp_all add: Let_def attempt_fst)

lemma try_hosts_won:
  assumes "\<forall>x\<in>set pre. \<not> is_won (judge rt (net (request_for g x)))"
    and "judge rt (net (request_for g h)) = Won img joined"
  shows "try_hosts rt net g (pre @ h # post) e =
           (True, snd (attempt rt net g h (snd (try_hosts rt net g pre e))))"
  using assms by (simp add: try_hosts_append Let_def attempt_fst)

text \<open>
  When the loop returns. If the attempts on the hosts \<open>pre\<close> are all lost, whatever the
  reason, and the attempt on the next host \<open>h\<close> is won (status 200, the stream ends, the
  body decodes, image data is found, and the text items beside it are strings, so that
  joining them raises nothing), then the job ends completed with progress 100 and that
  image as its result, its last observable state is that one, and the requests sent are
  those to \<open>pre\<close> and \<open>h\<close>: no host of \<open>post\<close> is asked.
\<close>

lemma first_won_returns:
  assumes "\<forall>x\<in>set pre. \<not> is_won (judge rt (net (request_for g x)))"
    and "judge rt (net (request_for g h)) = Won img joined"
  shows "status (task (execute_generation rt (pre @ h # post) net g created)) = Completed \<and>
         progress (task (execute_generation rt (pre @ h # post) net g created)) = 100 \<and>
         result_base64 (task (execute_generation rt (pre @ h # post) net g created)) = Some img \<and>
         sent (execute_generation rt (pre @ h # post) net g created) = map (request_for g) (pre @ [h]) \<and>
         last (polls (execute_generation rt (pre @ h # post) net g created)) =
           task (execute_generation rt (pre @ h # post) net g created)"
proof -
  let ?init = "\<lparr>task = created, polls = [created], sent = [], last_error = None\<rparr>"
  let ?mid = "snd (try_hosts rt net g pre ?init)"
  have run: "execute_generation rt (pre @ h # post) net g created = snd (attempt rt net g h ?mid)"
    by (simp add: execute_generation_def Let_def try_hosts_won [where net = net and g = g, OF assms])
  have "sent ?mid = map (request_for g) pre"
    using try_hosts_lost(2) [where net = net and g = g, OF assms(1), of ?init] by simp
  then show ?thesis
    unfolding run by (simp add: attempt_won [where net = net and g = g and host = h, OF assms(2)] attempt_sent)
qed

lemma url_differs:
  "url (request_for sample_generation (GOOGLE_API_HOSTS ! 1)) \<noteq> url (request_for sample_generation (GOOGLE_API_HOSTS ! 0))"
  by (simp add: request_for_def GOOGLE_API_HOSTS_def ascii_def)

lemma loads_blocked:
  "sample_loads blocked_body =
     Inr (JObj [(ascii ''promptFeedback'', JObj [(ascii ''blockReason'', JStr (ascii ''SAFETY''))])])"
  by (simp add: sample_loads_def blocked_body_def bytes_of_def)

lemma loads_image:
  "sample_loads image_body =
     Inr (JObj [(ascii ''candidates'', JArr [JObj [(ascii ''content'', JObj [(ascii ''parts'',
          JArr [JObj [(ascii ''text'', JStr (ascii ''here''))],
                JObj [(ascii ''inlineData'', JObj [(ascii ''mimeType'', JStr (ascii ''image/png'')),
                                                   (ascii ''data'', JStr (ascii ''AAAA''))])]])])]])])"
  by (simp add: sample_loads_def blocked_body_def image_body_def bytes_of_def)

lemma judge_blocked:
  "judge (sample_runtime sample_loads) (Responds 200 [blocked_body] None) =
     Lost ([20869, 23481, 34987, 23433, 20840, 31574, 30053, 38459, 27490] @ ascii '': SAFETY'')"
  by (simp add: judge_def sample_runtime_def loads_blocked read_response_def and_then_def py_get_def
        truthy_def py_str_def ascii_def)

lemma judge_image:
  "judge (sample_runtime sample_loads) (Responds 200 [image_body] None) =
     Won (ascii ''data:image/png;base64,AAAA'') (Some (ascii ''here''))"
  by (simp add: judge_def sample_runtime_def loads_image read_response_def and_then_def py_get_def
        truthy_def py_str_def py_first_def py_iter_def py_contains_def py_item_def py_len_def
        judge_parts_def py_join_def ascii_def)


lemma exn_text_nonempty: "exn_text x \<noteq> []"
  by (simp add: exn_text_def ascii_def)

lemma read_response_NoResult:
  "read_response rt data = Inr (NoResult msg) \<Longrightarrow> msg \<noteq> []"
  by (auto simp: read_response_def and_then_def split: sum.splits if_splits)

lemma no_image_reason_nonempty: "no_image_reason rt texts \<noteq> []"
  by (simp add: no_image_reason_def exn_text_nonempty split: sum.splits)

lemma judge_parts_reason: "\<not> is_won (judge_parts rt i t) \<Longrightarrow> reason (judge_parts rt i t) \<noteq> []"
  by (auto simp: judge_parts_def no_image_reason_nonempty exn_text_nonempty
        split: option.splits if_splits sum.splits)

lemma judge_reason:
  assumes "\<not> is_won (judge rt out)"
  shows "reason (judge rt out) \<noteq> []"
proof (cases out)
  case (Raises x)
  then show ?thesis by (simp add: judge_def exn_text_nonempty)
next
  case (Responds code chunks broken)
  show ?thesis
  proof (cases "broken = None \<and> code = 200")
    case False
    then show ?thesis using Responds
      by (auto simp: judge_def exn_text_nonempty ascii_def split: option.splits)
  next
    case True
    show ?thesis
    proof (cases "json_loads rt (concat chunks)")
      case (Inl x)
      then show ?thesis using Responds True by (simp add: judge_def exn_text_nonempty)
    next
      case (Inr data)
      show ?thesis
      proof (cases "read_response rt data")
        case (Inl f)
        then show ?thesis using Responds True Inr by (simp add: judge_def exn_text_nonempty)
      next
        case rd: (Inr r)
        show ?thesis
        proof (cases r)
          case (NoResult msg)
          then show ?thesis using Responds True Inr rd read_response_NoResult [of rt data msg]
            by (simp add: judge_def)
        next
          case (Scanned i t)
          then show ?thesis using Responds True Inr rd assms judge_parts_reason [of rt i t]
            by (simp add: judge_def)
        qed
      qed
    qed
  qed
qed

text \<open>
  C4. If no attempt is won, the job ends failed; its error is the reason the attempt on
  the last host recorded, or the message that all hosts failed when there was no host
  to try; every host was asked once, in order; and a poll of the stored job returns a
  response with status failed and that error: nothing is raised.
\<close>

theorem C4_all_fail:
  assumes "\<forall>x\<in>set hosts. \<not> is_won (judge rt (net (request_for g x)))"
  shows "status (task (execute_generation rt hosts net g created)) = Failed \<and>
         error (task (execute_generation rt hosts net g created)) =
           Some (if hosts = [] then [25152, 26377, 20027, 26426, 37117, 22833, 36133]
                 else reason (judge rt (net (request_for g (last hosts))))) \<and>
         sent (execute_generation rt hosts net g created) = map (request_for g) hosts \<and>
         last (polls (execute_generation rt hosts net g created)) =
           task (execute_generation rt hosts net g created) \<and>
         (\<exists>r. get_task_status (task_id g)
                 (s\<lparr>tasks := (tasks s)(task_id g \<mapsto> task (execute_generation rt hosts net g created))\<rparr>)
               = Inr r \<and> r_status r = Failed \<and>
               r_error r = error (task (execute_generation rt hosts net g created)))"
proof -
  let ?init = "\<lparr>task = created, polls = [created], sent = [], last_error = None\<rparr>"
  let ?e = "snd (try_hosts rt net g hosts ?init)"
  let ?generic = "[25152, 26377, 20027, 26426, 37117, 22833, 36133] :: pystr"
  let ?msg = "case last_error ?e of None \<Rightarrow> ?generic | Some m \<Rightarrow> if m = [] then ?generic else m"
  note lost = try_hosts_lost [where net = net and g = g and e = ?init, OF assms]
  have run: "execute_generation rt hosts net g created =
      suspend (?e\<lparr>task := (task ?e)\<lparr>status := Failed, error := Some ?msg\<rparr>\<rparr>)"
    using lost(1) by (simp add: execute_generation_def Let_def)
  have msg: "?msg = (if hosts = [] then ?generic
      else reason (judge rt (net (request_for g (last hosts)))))"
  proof (cases "hosts = []")
    case True
    then show ?thesis using lost(3) by simp
  next
    case False
    then have "\<not> is_won (judge rt (net (request_for g (last hosts))))"
      using assms by simp
    then have "reason (judge rt (net (request_for g (last hosts)))) \<noteq> []"
      by (rule judge_reason)
    then show ?thesis using lost(3) False by simp
  qed
  have a: "status (task (execute_generation rt hosts net g created)) = Failed"
    unfolding run by (simp add: suspend_def)
  have b: "error (task (execute_generation rt hosts net g created)) =
      Some (if hosts = [] then ?generic else reason (judge rt (net (request_for g (last hosts)))))"
    unfolding run using msg by (simp add: suspend_def)
  have c: "sent (execute_generation rt hosts net g created) = map (request_for g) hosts"
    unfolding run using lost(2) by (simp add: suspend_def)
  have d: "last (polls (execute_generation rt hosts net g created)) =
      task (execute_generation rt hosts net g created)"
    unfolding run by (simp add: suspend_def)
  have e: "\<exists>r. get_task_status (task_id g)
                 (s\<lparr>tasks := (tasks s)(task_id g \<mapsto> task (execute_generation rt hosts net g created))\<rparr>)
               = Inr r \<and> r_status r = Failed \<and>
               r_error r = error (task (execute_generation rt hosts net g created))"
    using a by (simp add: get_task_status_def)
  from a b c d e show ?thesis by blast
qed

lemma first_won_returns_example:
  "status (task (execute_generation (sample_runtime sample_loads)
      (GOOGLE_API_HOSTS @ [ascii ''https://third.example/google'']) first_blocked
      sample_generation sample_job)) = Completed \<and>
   progress (task (execute_generation (sample_runtime sample_loads)
      (GOOGLE_API_HOSTS @ [ascii ''https://third.example/google'']) first_blocked
      sample_generation sample_job)) = 100 \<and>
   result_base64 (task (execute_generation (sample_runtime sample_loads)
      (GOOGLE_API_HOSTS @ [ascii ''https://third.example/google'']) first_blocked
      sample_generation sample_job)) = Some (ascii ''data:image/png;base64,AAAA'') \<and>
   sent (execute_generation (sample_runtime sample_loads)
      (GOOGLE_API_HOSTS @ [ascii ''https://third.example/google'']) first_blocked
      sample_generation sample_job) =
     [request_for sample_generation (GOOGLE_API_HOSTS ! 0),
      request_for sample_generation (GOOGLE_API_HOSTS ! 1)]"
proof -
  let ?rt = "sample_runtime sample_loads"
  have hosts: "GOOGLE_API_HOSTS @ [ascii ''https://third.example/google''] =
      [GOOGLE_API_HOSTS ! 0] @ (GOOGLE_API_HOSTS ! 1) # [ascii ''https://third.example/google'']"
    by (simp add: GOOGLE_API_HOSTS_def)
  have pre: "\<forall>x\<in>set [GOOGLE_API_HOSTS ! 0].
      \<not> is_won (judge ?rt (first_blocked (request_for sample_generation x)))"
    by (simp add: first_blocked_def judge_blocked)
  have h: "judge ?rt (first_blocked (request_for sample_generation (GOOGLE_API_HOSTS ! 1))) =
      Won (ascii ''data:image/png;base64,AAAA'') (Some (ascii ''here''))"
    using url_differs by (simp add: first_blocked_def judge_image)
  show ?thesis
    unfolding hosts
    using first_won_returns [where net = first_blocked and g = sample_generation, OF pre h,
      of "[ascii ''https://third.example/google'']" sample_job]
    by simp
qed

theorem C4_all_fail_witness:
  "status (task (execute_generation (sample_runtime sample_loads) GOOGLE_API_HOSTS all_blocked
      sample_generation sample_job)) = Failed \<and>
   error (task (execute_generation (sample_runtime sample_loads) GOOGLE_API_HOSTS all_blocked
      sample_generation sample_job)) =
     Some ([20869, 23481, 34987, 23433, 20840, 31574, 30053, 38459, 27490] @ ascii '': SAFETY'')"
proof -
  have pre: "\<forall>x\<in>set GOOGLE_API_HOSTS.
      \<not> is_won (judge (sample_runtime sample_loads) (all_blocked (request_for sample_generation x)))"
    by (simp add: all_blocked_def judge_blocked)
  have ne: "GOOGLE_API_HOSTS \<noteq> []" by (simp add: GOOGLE_API_HOSTS_def)
  show ?thesis
    using C4_all_fail [where net = all_blocked and g = sample_generation, OF pre, of sample_job] ne
    by (simp add: all_blocked_def judge_blocked)
qed

subsection \<open>The rounding of the progress formula\<close>

text \<open>
  The two roundings of the formula never change the integer it truncates to: at a multiple
  of 2500 bytes the product is computed exactly, and elsewhere the exact value lies at
  least \<open>1 / 2500\<close> from an integer, far more than the two rounding errors.
\<close>

lemma round_even_near: "\<bar>y - of_int m\<bar> < 1 / 2 \<Longrightarrow> round_even y = m"
proof -
  assume a: "\<bar>y - of_int m\<bar> < 1 / 2"
  have "\<lfloor>y\<rfloor> = m \<or> \<lfloor>y\<rfloor> = m - 1"
    using a by (auto simp: floor_eq_iff abs_less_iff)
  then show ?thesis
    using a unfolding round_even_def by (auto simp: abs_less_iff)
qed

lemma floor_log2:
  assumes "2 powr of_int e \<le> x" and "x < 2 powr (of_int e + 1)"
  shows "\<lfloor>log 2 x\<rfloor> = e"
proof -
  have pos: "0 < x" using assms(1) powr_gt_zero [of 2 "of_int e"] by linarith
  have "of_int e \<le> log 2 x" using assms(1) pos by (simp add: le_log_iff)
  moreover have "log 2 x < of_int e + 1" using assms(2) pos by (simp add: log_less_iff)
  ultimately show ?thesis by (simp add: floor_eq_iff)
qed


lemma fl64_cert:
  assumes "2 powr of_int e \<le> x" and "x < 2 powr (of_int e + 1)"
    and "\<bar>x / 2 powr (of_int e - 52) - of_int M\<bar> < 1 / 2"
  shows "fl64 x = of_int M * 2 powr (of_int e - 52)"
proof -
  have pos: "0 < x" using assms(1) powr_gt_zero [of 2 "of_int e"] by linarith
  have e: "\<lfloor>log 2 x\<rfloor> = e" using assms(1,2) by (rule floor_log2)
  show ?thesis
    using pos by (simp add: fl64_def e round_even_near [OF assms(3)])
qed

lemma twentieth_1: "fl64 (fl64 (1 / 20) * 60) = 3"
proof -
  have a: "fl64 (1 / 20) = of_int 7205759403792794 * 2 powr (of_int (- 5) - 52)"
    by (rule fl64_cert) (simp_all add: powr_neg_numeral)
  have b: "fl64 (of_int 7205759403792794 * 2 powr (of_int (- 5) - 52) * 60) =
      of_int 6755399441055744 * 2 powr (of_int 1 - 52)"
    by (rule fl64_cert) (simp_all add: powr_neg_numeral)
  show ?thesis unfolding a b by (simp add: powr_neg_numeral)
qed

lemma twentieth_2: "fl64 (fl64 (1 / 10) * 60) = 6"
proof -
  have a: "fl64 (1 / 10) = of_int 7205759403792794 * 2 powr (of_int (- 4) - 52)"
    by (rule fl64_cert) (simp_all add: powr_neg_numeral)
  have b: "fl64 (of_int 7205759403792794 * 2 powr (of_int (- 4) - 52) * 60) =
      of_int 6755399441055744 * 2 powr (of_int 2 - 52)"
    by (rule fl64_cert) (simp_all add: powr_neg_numeral)
  show ?thesis unfolding a b by (simp add: powr_neg_numeral)
qed

lemma twentieth_3: "fl64 (fl64 (3 / 20) * 60) = 9"
proof -
  have a: "fl64 (3 / 20) = of_int 5404319552844595 * 2 powr (of_int (- 3) - 52)"
    by (rule fl64_cert) (simp_all add: powr_neg_numeral)
  have b: "fl64 (of_int 5404319552844595 * 2 powr (of_int (- 3) - 52) * 60) =
      of_int 5066549580791808 * 2 powr (of_int 3 - 52)"
    by (rule fl64_cert) (simp_all add: powr_neg_numeral)
  show ?thesis unfolding a b by (simp add: powr_neg_numeral)
qed

lemma twentieth_4: "fl64 (fl64 (1 / 5) * 60) = 12"
proof -
  have a: "fl64 (1 / 5) = of_int 7205759403792794 * 2 powr (of_int (- 3) - 52)"
    by (rule fl64_cert) (simp_all add: powr_neg_numeral)
  have b: "fl64 (of_int 7205759403792794 * 2 powr (of_int (- 3) - 52) * 60) =
      of_int 6755399441055744 * 2 powr (of_int 3 - 52)"
    by (rule fl64_cert) (simp_all add: powr_neg_numeral)
  show ?thesis unfolding a b by (simp add: powr_neg_numeral)
qed

lemma twentieth_5: "fl64 (fl64 (1 / 4) * 60) = 15"
proof -
  have a: "fl64 (1 / 4) = of_int 4503599627370496 * 2 powr (of_int (- 2) - 52)"
    by (rule fl64_cert) (simp_all add: powr_neg_numeral)
  have b: "fl64 (of_int 4503599627370496 * 2 powr (of_int (- 2) - 52) * 60) =
      of_int 8444249301319680 * 2 powr (of_int 3 - 52)"
    by (rule fl64_cert) (simp_all add: powr_neg_numeral)
  show ?thesis unfolding a b by (simp add: powr_neg_numeral)
qed

lemma twentieth_6: "fl64 (fl64 (3 / 10) * 60) = 18"
proof -
  have a: "fl64 (3 / 10) = of_int 5404319552844595 * 2 powr (of_int (- 2) - 52)"
    by (rule fl64_cert) (simp_all add: powr_neg_numeral)
  have b: "fl64 (of_int 5404319552844595 * 2 powr (of_int (- 2) - 52) * 60) =
      of_int 5066549580791808 * 2 powr (of_int 4 - 52)"
    by (rule fl64_cert) (simp_all add: powr_neg_numeral)
  show ?thesis unfolding a b by (simp add: powr_neg_numeral)
qed

lemma twentieth_7: "fl64 (fl64 (7 / 20) * 60) = 21"
proof -
  have a: "fl64 (7 / 20) = of_int 6305039478318694 * 2 powr (of_int (- 2) - 52)"
    by (rule fl64_cert) (simp_all add: powr_neg_numeral)
  have b: "fl64 (of_int 6305039478318694 * 2 powr (of_int (- 2) - 52) * 60) =
      of_int 5910974510923776 * 2 powr (of_int 4 - 52)"
    by (rule fl64_cert) (simp_all add: powr_neg_numeral)
  show ?thesis unfolding a b by (simp add: powr_neg_numeral)
qed

lemma twentieth_8: "fl64 (fl64 (2 / 5) * 60) = 24"
proof -
  have a: "fl64 (2 / 5) = of_int 7205759403792794 * 2 powr (of_int (- 2) - 52)"
    by (rule fl64_cert) (simp_all add: powr_neg_numeral)
  have b: "fl64 (of_int 7205759403792794 * 2 powr (of_int (- 2) - 52) * 60) =
      of_int 6755399441055744 * 2 powr (of_int 4 - 52)"
    by (rule fl64_cert) (simp_all add: powr_neg_numeral)
  show ?thesis unfolding a b by (simp add: powr_neg_numeral)
qed

lemma twentieth_9: "fl64 (fl64 (9 / 20) * 60) = 27"
proof -
  have a: "fl64 (9 / 20) = of_int 8106479329266893 * 2 powr (of_int (- 2) - 52)"
    by (rule fl64_cert) (simp_all add: powr_neg_numeral)
  have b: "fl64 (of_int 8106479329266893 * 2 powr (of_int (- 2) - 52) * 60) =
      of_int 7599824371187712 * 2 powr (of_int 4 - 52)"
    by (rule fl64_cert) (simp_all add: powr_neg_numeral)
  show ?thesis unfolding a b by (simp add: powr_neg_numeral)
qed

lemma twentieth_10: "fl64 (fl64 (1 / 2) * 60) = 30"
proof -
  have a: "fl64 (1 / 2) = of_int 4503599627370496 * 2 powr (of_int (- 1) - 52)"
    by (rule fl64_cert) (simp_all add: powr_neg_numeral)
  have b: "fl64 (of_int 4503599627370496 * 2 powr (of_int (- 1) - 52) * 60) =
      of_int 8444249301319680 * 2 powr (of_int 4 - 52)"
    by (rule fl64_cert) (simp_all add: powr_neg_numeral)
  show ?thesis unfolding a b by (simp add: powr_neg_numeral)
qed

lemma twentieth_11: "fl64 (fl64 (11 / 20) * 60) = 33"
proof -
  have a: "fl64 (11 / 20) = of_int 4953959590107546 * 2 powr (of_int (- 1) - 52)"
    by (rule fl64_cert) (simp_all add: powr_neg_numeral)
  have b: "fl64 (of_int 4953959590107546 * 2 powr (of_int (- 1) - 52) * 60) =
      of_int 4644337115725824 * 2 powr (of_int 5 - 52)"
    by (rule fl64_cert) (simp_all add: powr_neg_numeral)
  show ?thesis unfolding a b by (simp add: powr_neg_numeral)
qed

lemma twentieth_12: "fl64 (fl64 (3 / 5) * 60) = 36"
proof -
  have a: "fl64 (3 / 5) = of_int 5404319552844595 * 2 powr (of_int (- 1) - 52)"
    by (rule fl64_cert) (simp_all add: powr_neg_numeral)
  have b: "fl64 (of_int 5404319552844595 * 2 powr (of_int (- 1) - 52) * 60) =
      of_int 5066549580791808 * 2 powr (of_int 5 - 52)"
    by (rule fl64_cert) (simp_all add: powr_neg_numeral)
  show ?thesis unfolding a b by (simp add: powr_neg_numeral)
qed

lemma twentieth_13: "fl64 (fl64 (13 / 20) * 60) = 39"
proof -
  have a: "fl64 (13 / 20) = of_int 5854679515581645 * 2 powr (of_int (- 1) - 52)"
    by (rule fl64_cert) (simp_all add: powr_neg_numeral)
  have b: "fl64 (of_int 5854679515581645 * 2 powr (of_int (- 1) - 52) * 60) =
      of_int 5488762045857792 * 2 powr (of_int 5 - 52)"
    by (rule fl64_cert) (simp_all add: powr_neg_numeral)
  show ?thesis unfolding a b by (simp add: powr_neg_numeral)
qed

lemma twentieth_14: "fl64 (fl64 (7 / 10) * 60) = 42"
proof -
  have a: "fl64 (7 / 10) = of_int 6305039478318694 * 2 powr (of_int (- 1) - 52)"
    by (rule fl64_cert) (simp_all add: powr_neg_numeral)
  have b: "fl64 (of_int 6305039478318694 * 2 powr (of_int (- 1) - 52) * 60) =
      of_int 5910974510923776 * 2 powr (of_int 5 - 52)"
    by (rule fl64_cert) (simp_all add: powr_neg_numeral)
  show ?thesis unfolding a b by (simp add: powr_neg_numeral)
qed

lemma twentieth_15: "fl64 (fl64 (3 / 4) * 60) = 45"
proof -
  have a: "fl64 (3 / 4) = of_int 6755399441055744 * 2 powr (of_int (- 1) - 52)"
    by (rule fl64_cert) (simp_all add: powr_neg_numeral)
  have b: "fl64 (of_int 6755399441055744 * 2 powr (of_int (- 1) - 52) * 60) =
      of_int 6333186975989760 * 2 powr (of_int 5 - 52)"
    by (rule fl64_cert) (simp_all add: powr_neg_numeral)
  show ?thesis unfolding a b by (simp add: powr_neg_numeral)
qed

lemma twentieth_16: "fl64 (fl64 (4 / 5) * 60) = 48"
proof -
  have a: "fl64 (4 / 5) = of_int 7205759403792794 * 2 powr (of_int (- 1) - 52)"
    by (rule fl64_cert) (simp_all add: powr_neg_numeral)
  have b: "fl64 (of_int 7205759403792794 * 2 powr (of_int (- 1) - 52) * 60) =
      of_int 6755399441055744 * 2 powr (of_int 5 - 52)"
    by (rule fl64_cert) (simp_all add: powr_neg_numeral)
  show ?thesis unfolding a b by (simp add: powr_neg_numeral)
qed

lemma twentieth_17: "fl64 (fl64 (17 / 20) * 60) = 51"
proof -
  have a: "fl64 (17 / 20) = of_int 7656119366529843 * 2 powr (of_int (- 1) - 52)"
    by (rule fl64_cert) (simp_all add: powr_neg_numeral)
  have b: "fl64 (of_int 7656119366529843 * 2 powr (of_int (- 1) - 52) * 60) =
      of_int 7177611906121728 * 2 powr (of_int 5 - 52)"
    by (rule fl64_cert) (simp_all add: powr_neg_numeral)
  show ?thesis unfolding a b by (simp add: powr_neg_numeral)
qed

lemma twentieth_18: "fl64 (fl64 (9 / 10) * 60) = 54"
proof -
  have a: "fl64 (9 / 10) = of_int 8106479329266893 * 2 powr (of_int (- 1) - 52)"
    by (rule fl64_cert) (simp_all add: powr_neg_numeral)
  have b: "fl64 (of_int 8106479329266893 * 2 powr (of_int (- 1) - 52) * 60) =
      of_int 7599824371187712 * 2 powr (of_int 5 - 52)"
    by (rule fl64_cert) (simp_all add: powr_neg_numeral)
  show ?thesis unfolding a b by (simp add: powr_neg_numeral)
qed

lemma twentieth_19: "fl64 (fl64 (19 / 20) * 60) = 57"
proof -
  have a: "fl64 (19 / 20) = of_int 8556839292003942 * 2 powr (of_int (- 1) - 52)"
    by (rule fl64_cert) (simp_all add: powr_neg_numeral)
  have b: "fl64 (of_int 8556839292003942 * 2 powr (of_int (- 1) - 52) * 60) =
      of_int 8022036836253696 * 2 powr (of_int 5 - 52)"
    by (rule fl64_cert) (simp_all add: powr_neg_numeral)
  show ?thesis unfolding a b by (simp add: powr_neg_numeral)
qed

lemma twentieths:
  assumes "m < 20"
  shows "fl64 (fl64 (real m / 20) * 60) = real (3 * m)"
proof -
  from assms consider "m = 0" | "m = 1" | "m = 2" | "m = 3" | "m = 4" | "m = 5" | "m = 6"
    | "m = 7" | "m = 8" | "m = 9" | "m = 10" | "m = 11" | "m = 12" | "m = 13" | "m = 14"
    | "m = 15" | "m = 16" | "m = 17" | "m = 18" | "m = 19"
    by atomize_elim arith
  then show ?thesis
  proof cases
    case 1
    then show ?thesis by (simp add: fl64_def)
  qed (simp_all add: twentieth_1 twentieth_2 twentieth_3 twentieth_4 twentieth_5 twentieth_6
        twentieth_7 twentieth_8 twentieth_9 twentieth_10 twentieth_11 twentieth_12
        twentieth_13 twentieth_14 twentieth_15 twentieth_16 twentieth_17 twentieth_18
        twentieth_19)
qed

lemma round_even_err: "\<bar>of_int (round_even y) - y\<bar> \<le> 1 / 2"
  unfolding round_even_def by (auto simp: abs_le_iff)

lemma round_even_ge: "of_int k \<le> y \<Longrightarrow> k \<le> round_even y"
proof -
  assume "of_int k \<le> y"
  then have "k \<le> \<lfloor>y\<rfloor>" by (simp add: le_floor_iff)
  then show ?thesis unfolding round_even_def by auto
qed

lemma log2_bounds:
  assumes "0 < x"
  shows "2 powr of_int \<lfloor>log 2 x\<rfloor> \<le> x" and "x < 2 powr (of_int \<lfloor>log 2 x\<rfloor> + 1)"
proof -
  have "of_int \<lfloor>log 2 x\<rfloor> \<le> log 2 x \<longleftrightarrow> 2 powr of_int \<lfloor>log 2 x\<rfloor> \<le> x"
    using assms by (intro le_log_iff) simp_all
  then show "2 powr of_int \<lfloor>log 2 x\<rfloor> \<le> x" by simp
  have "log 2 x < of_int \<lfloor>log 2 x\<rfloor> + 1 \<longleftrightarrow> x < 2 powr (of_int \<lfloor>log 2 x\<rfloor> + 1)"
    using assms by (intro log_less_iff) simp_all
  moreover have "log 2 x < of_int \<lfloor>log 2 x\<rfloor> + 1" by linarith
  ultimately show "x < 2 powr (of_int \<lfloor>log 2 x\<rfloor> + 1)" by blast
qed

lemma fl64_err:
  assumes "0 < x"
  shows "\<bar>fl64 x - x\<bar> \<le> x * 2 powr (- 53)"
proof -
  define e where "e = \<lfloor>log 2 x\<rfloor>"
  define q :: real where "q = 2 powr (of_int e - 52)"
  have q: "0 < q" by (simp add: q_def)
  have fl: "fl64 x = of_int (round_even (x / q)) * q"
    using assms by (simp add: fl64_def e_def q_def)
  have "\<bar>of_int (round_even (x / q)) - x / q\<bar> \<le> 1 / 2" by (rule round_even_err)
  then have "\<bar>of_int (round_even (x / q)) - x / q\<bar> * q \<le> 1 / 2 * q"
    using q by (intro mult_right_mono) simp_all
  moreover have "\<bar>of_int (round_even (x / q)) - x / q\<bar> * q = \<bar>fl64 x - x\<bar>"
  proof -
    have "fl64 x - x = (of_int (round_even (x / q)) - x / q) * q"
      using q by (simp add: fl field_simps)
    then show ?thesis using q by (simp add: abs_mult)
  qed
  ultimately have 1: "\<bar>fl64 x - x\<bar> \<le> q / 2" by simp
  have "q / 2 = 2 powr of_int e * 2 powr (- 53)"
    unfolding q_def by (simp add: powr_diff powr_minus powr_add [symmetric] field_simps)
  also have "\<dots> \<le> x * 2 powr (- 53)"
    using log2_bounds(1) [OF assms] unfolding e_def by (intro mult_right_mono) simp_all
  finally show ?thesis using 1 by linarith
qed

lemma fl64_low:
  assumes "0 < x"
  shows "2 powr of_int \<lfloor>log 2 x\<rfloor> \<le> fl64 x"
proof -
  define e where "e = \<lfloor>log 2 x\<rfloor>"
  define q :: real where "q = 2 powr (of_int e - 52)"
  have q: "0 < q" by (simp add: q_def)
  have fl: "fl64 x = of_int (round_even (x / q)) * q"
    using assms by (simp add: fl64_def e_def q_def)
  have pe: "2 powr of_int e = 2 ^ 52 * q"
    unfolding q_def by (simp add: powr_diff)
  have "of_int (2 ^ 52) \<le> x / q"
    using log2_bounds(1) [OF assms] q unfolding e_def [symmetric] pe
    by (simp add: pos_le_divide_eq)
  then have "2 ^ 52 \<le> round_even (x / q)" by (rule round_even_ge)
  then have "(2 ^ 52 :: real) \<le> of_int (round_even (x / q))"
    by (metis of_int_le_iff of_int_numeral of_int_power)
  then have "2 ^ 52 * q \<le> of_int (round_even (x / q)) * q"
    using q by (intro mult_right_mono) simp_all
  then show ?thesis unfolding fl pe e_def [symmetric] .
qed

lemma fl64_pos: "0 < x \<Longrightarrow> 0 < fl64 x"
  using fl64_low [of x] powr_gt_zero [of 2 "of_int \<lfloor>log 2 x\<rfloor>"] by linarith

lemma fl64_ge1:
  assumes "1 \<le> x"
  shows "1 \<le> fl64 x"
proof -
  have "0 \<le> log 2 x" using assms by simp
  then have "0 \<le> \<lfloor>log 2 x\<rfloor>" by simp
  then have "(2::real) powr 0 \<le> 2 powr of_int \<lfloor>log 2 x\<rfloor>"
    by (intro powr_mono) simp_all
  then show ?thesis using fl64_low [of x] assms by simp
qed

lemma fl64_zero: "fl64 0 = 0"
  by (simp add: fl64_def)

lemma fl64_ge60:
  assumes "60 \<le> x"
  shows "60 \<le> fl64 x"
proof -
  have pos: "0 < x" using assms by simp
  define e where "e = \<lfloor>log 2 x\<rfloor>"
  have "(5::real) \<le> log 2 x" using assms pos by (simp add: le_log_iff)
  then have e5: "5 \<le> e" unfolding e_def by (simp add: le_floor_iff)
  show ?thesis
  proof (cases "e = 5")
    case True
    define q :: real where "q = 1 / 2 ^ 47"
    have q: "0 < q" by (simp add: q_def)
    have qe: "2 powr (of_int \<lfloor>log 2 x\<rfloor> - 52) = q"
      using True unfolding e_def q_def by (simp add: powr_neg_numeral)
    have fl: "fl64 x = of_int (round_even (x / q)) * q"
      using pos by (simp add: fl64_def qe)
    have "of_int (60 * 2 ^ 47) \<le> x / q"
      using assms by (simp add: q_def)
    then have "60 * 2 ^ 47 \<le> round_even (x / q)" by (rule round_even_ge)
    then have "(of_int (60 * 2 ^ 47) :: real) \<le> of_int (round_even (x / q))"
      by (simp only: of_int_le_iff)
    then have "of_int (60 * 2 ^ 47) * q \<le> of_int (round_even (x / q)) * q"
      using q by (intro mult_right_mono) simp_all
    then show ?thesis unfolding fl by (simp add: q_def)
  next
    case False
    then have "6 \<le> e" using e5 by simp
    then have "(2::real) powr 6 \<le> 2 powr of_int e"
      by (intro powr_mono) simp_all
    then show ?thesis using fl64_low [OF pos] unfolding e_def by simp
  qed
qed

lemma progress_between:
  assumes "0 < n" and "n < 50000" and "\<not> 2500 dvd n"
  shows "\<lfloor>fl64 (fl64 (real n / 50000) * 60)\<rfloor> = (int n * 60) div 50000"
proof -
  define u :: real where "u = 1 / 2 ^ 53"
  have u: "2 powr (- 53) = u" by (simp add: u_def powr_neg_numeral)
  define x where "x = real n / 50000"
  have x: "0 < x" "x < 1" using assms by (simp_all add: x_def)
  define a where "a = fl64 x"
  have a0: "0 < a" unfolding a_def using x(1) by (rule fl64_pos)
  have "\<bar>a - x\<bar> \<le> x * u" unfolding a_def u [symmetric] using x(1) by (rule fl64_err)
  moreover have "x * u \<le> u" using x by (simp add: u_def)
  ultimately have a: "\<bar>a - x\<bar> \<le> u" by linarith
  define b where "b = a * 60"
  have b0: "0 < b" using a0 by (simp add: b_def)
  define y where "y = fl64 b"
  have yb: "\<bar>y - b\<bar> \<le> b * u" unfolding y_def u [symmetric] using b0 by (rule fl64_err)
  have "a \<le> x + u" using a by (simp add: abs_le_iff)
  then have "a \<le> 1 + u" using x(2) by simp
  then have "b \<le> 60 * (1 + u)" unfolding b_def by simp
  then have "b * u \<le> 60 * (1 + u) * u" by (intro mult_right_mono) (simp_all add: u_def)
  then have yb': "\<bar>y - b\<bar> \<le> 60 * (1 + u) * u" using yb by linarith
  have "\<bar>b - 60 * x\<bar> = \<bar>60 * (a - x)\<bar>" unfolding b_def by (simp add: algebra_simps)
  also have "\<dots> = 60 * \<bar>a - x\<bar>" by (subst abs_mult) simp
  finally have bx: "\<bar>b - 60 * x\<bar> \<le> 60 * u" using a by simp
  have small: "60 * (1 + u) * u + 60 * u < 1 / 2500" by (simp add: u_def)
  have err: "\<bar>y - 60 * x\<bar> < 1 / 2500" using yb' bx small by linarith
  define k where "k = (int n * 3) div 2500"
  define r where "r = (int n * 3) mod 2500"
  have nkr: "int n * 3 = k * 2500 + r" unfolding k_def r_def by simp
  have "r \<noteq> 0"
  proof
    assume "r = 0"
    then have "2500 dvd int n * 3" unfolding r_def by (simp add: dvd_eq_mod_eq_0)
    then have "2500 dvd int n * 3 * 833" by (rule dvd_mult2)
    moreover have "(2500::int) dvd int n * 2500" by (rule dvd_triv_right)
    ultimately have "2500 dvd int n * 2500 - int n * 3 * 833" by (intro dvd_diff)
    moreover have "int n * 2500 - int n * 3 * 833 = int n" by simp
    ultimately have "2500 dvd int n" by simp
    then have "2500 dvd n" by presburger
    with assms(3) show False by simp
  qed
  moreover have "0 \<le> r" "r < 2500" unfolding r_def by simp_all
  ultimately have r: "1 \<le> r" "r \<le> 2499" by simp_all
  have "60 * x = real_of_int (int n * 3) / 2500" unfolding x_def by simp
  also have "\<dots> = of_int k + of_int r / 2500" unfolding nkr by (simp add: field_simps)
  finally have t: "60 * x = of_int k + of_int r / 2500" .
  have "(1::real) \<le> of_int r" "(of_int r :: real) \<le> 2499" using r by simp_all
  then have "of_int k + 1 / 2500 \<le> 60 * x" "60 * x \<le> of_int k + 1 - 1 / 2500"
    unfolding t by (simp_all add: field_simps)
  then have "of_int k \<le> y" "y < of_int k + 1" using err by linarith+
  then have "\<lfloor>y\<rfloor> = k" by (simp add: floor_eq_iff)
  moreover have "(int n * 60) div 50000 = k"
  proof -
    have "(20 * (int n * 3)) div (20 * 2500) = (int n * 3) div 2500"
      by (rule div_mult_mult1) simp
    then show ?thesis unfolding k_def by simp
  qed
  ultimately show ?thesis unfolding y_def b_def a_def x_def by simp
qed

lemma progress_multiple:
  assumes "n < 50000" and "2500 dvd n"
  shows "\<lfloor>fl64 (fl64 (real n / 50000) * 60)\<rfloor> = (int n * 60) div 50000"
proof -
  from assms(2) obtain m where n: "n = 2500 * m" by (auto elim: dvdE)
  then have m: "m < 20" using assms(1) by simp
  have "real n / 50000 = real m / 20" unfolding n by simp
  then have "fl64 (fl64 (real n / 50000) * 60) = real (3 * m)"
    using twentieths [OF m] by simp
  then have "\<lfloor>fl64 (fl64 (real n / 50000) * 60)\<rfloor> = int (3 * m)"
    by (simp only: floor_of_nat)
  moreover have "(int n * 60) div 50000 = int (3 * m)" unfolding n by simp
  ultimately show ?thesis by simp
qed

lemma progress_full:
  assumes "50000 \<le> n"
  shows "60 \<le> \<lfloor>fl64 (fl64 (real n / 50000) * 60)\<rfloor>"
proof -
  have "1 \<le> real n / 50000" using assms by simp
  then have "1 \<le> fl64 (real n / 50000)" by (rule fl64_ge1)
  then have "60 \<le> fl64 (real n / 50000) * 60" by simp
  then have "60 \<le> fl64 (fl64 (real n / 50000) * 60)" by (rule fl64_ge60)
  then show ?thesis by (simp add: le_floor_iff)
qed

lemma progress_float_exact:
  "min (30 + \<lfloor>fl64 (fl64 (real n / 50000) * 60)\<rfloor>) 90 = min (30 + (int n * 60) div 50000) 90"
proof (cases "n < 50000")
  case True
  have "\<lfloor>fl64 (fl64 (real n / 50000) * 60)\<rfloor> = (int n * 60) div 50000"
  proof (cases "2500 dvd n")
    case True
    with \<open>n < 50000\<close> show ?thesis by (rule progress_multiple)
  next
    case False
    then have "0 < n" by (cases n) simp_all
    then show ?thesis using \<open>n < 50000\<close> False by (rule progress_between)
  qed
  then show ?thesis by simp
next
  case False
  then have n: "50000 \<le> n" by simp
  have 1: "60 \<le> \<lfloor>fl64 (fl64 (real n / 50000) * 60)\<rfloor>" using n by (rule progress_full)
  have "50000 \<le> int n" using n by simp
  then have "(50000 * 60) div 50000 \<le> (int n * 60) div 50000"
    by (intro zdiv_mono1) simp_all
  then have 2: "60 \<le> (int n * 60) div 50000" by simp
  show ?thesis using 1 2 by simp
qed

lemma stream_progress_exact: "stream_progress n = min (30 + (int n * 60) div 50000) 90"
  unfolding stream_progress_def by (rule progress_float_exact)

lemma stream_progress_floor: "stream_progress n = min (30 + \<lfloor>real n / 50000 * 60\<rfloor>) 90"
proof -
  have "real n / 50000 * 60 = real_of_int (int n * 60) / real_of_int 50000"
    by simp
  then have "\<lfloor>real n / 50000 * 60\<rfloor> = (int n * 60) div 50000"
    by (simp only: floor_divide_of_int_eq)
  then show ?thesis by (simp add: stream_progress_exact)
qed

lemma stream_progress_bounds: "30 \<le> stream_progress n" "stream_progress n \<le> 90"
  by (simp_all add: stream_progress_exact)

lemma stream_progress_mono: "m \<le> n \<Longrightarrow> stream_progress m \<le> stream_progress n"
  unfolding stream_progress_exact
  by (intro min.mono add_left_mono zdiv_mono1) simp_all

lemma running_nth:
  "k < length chunks \<Longrightarrow> running n chunks ! k = n + length (concat (take (Suc k) chunks))"
proof (induction chunks arbitrary: n k)
  case Nil
  then show ?case by simp
next
  case (Cons c cs)
  then show ?case by (cases k) simp_all
qed

lemma running_length: "length (running n chunks) = length chunks"
  by (induction chunks arbitrary: n) simp_all

lemma running_ge: "x \<in> set (running n chunks) \<Longrightarrow> n \<le> x"
proof (induction chunks arbitrary: n)
  case Nil
  then show ?case by simp
next
  case (Cons c cs)
  then show ?case by fastforce
qed

lemma running_sorted: "sorted (running n chunks)"
proof (induction chunks arbitrary: n)
  case Nil
  then show ?case by simp
next
  case (Cons c cs)
  then show ?case using running_ge [of _ "n + length c" cs] by auto
qed

lemma streamed_sorted: "sorted (map stream_progress (running n chunks))"
  using running_sorted [of n chunks]
  by (simp add: sorted_map sorted_wrt_iff_nth_less stream_progress_mono)

lemma settle_polls: "polls (settle v e) = polls e"
  by (simp add: settle_def fail_with_def Let_def split: summary.splits option.splits)

lemma settle_progress:
  "progress (task (settle v e)) = (case v of Lost m \<Rightarrow> progress (task e) | _ \<Rightarrow> 100)"
  by (simp add: settle_def fail_with_def Let_def split: summary.splits option.splits)

lemma reach_polls:
  "map progress (polls (reach out e)) = map progress (polls e) @ streamed out"
  by (simp add: reach_def streamed_def read_chunks_polls set_progress_def comp_def
        split: http_outcome.splits)

lemma last_running_progress:
  "chunks \<noteq> [] \<Longrightarrow> stream_progress (last (running n chunks)) = last (p # map stream_progress (running n chunks))"
  by (simp add: running_Nil last_map)

lemma reach_progress:
  "progress (task (reach out e)) =
     (case out of
        Raises x \<Rightarrow> progress (task e)
      | Responds status_code chunks broken \<Rightarrow>
          if status_code \<noteq> 200 then progress (task e)
          else if broken = None then 95
          else last (progress (task e) # map stream_progress (running 0 chunks)))"
  by (simp add: reach_def read_chunks_task set_progress_def running_Nil last_map
        split: http_outcome.splits)

lemma attempt_end_progress:
  "progress (task (snd (attempt rt net g host e))) = end_progress rt (net (request_for g host))"
  by (simp add: attempt_summary suspend_keeps settle_progress reach_progress end_progress_def
        suspend_def set_progress_def split: summary.splits http_outcome.splits)

lemma attempt_polls:
  "map progress (polls (snd (attempt rt net g host e))) =
     map progress (polls e) @ attempt_progress rt (net (request_for g host))"
proof -
  let ?out = "net (request_for g host)"
  let ?e2 = "(suspend (set_progress 30 e))\<lparr>sent := sent e @ [request_for g host]\<rparr>"
  have "polls (snd (attempt rt net g host e)) =
      polls (reach ?out ?e2) @ [task (snd (attempt rt net g host e))]"
    by (simp add: attempt_summary suspend_keeps settle_polls)
  moreover have "map progress (polls ?e2) = map progress (polls e) @ [30]"
    by (simp add: suspend_def set_progress_def)
  ultimately show ?thesis
    by (simp add: reach_polls attempt_end_progress attempt_progress_def)
qed

text \<open>
  C7. When a host answers with status 200, the progress values a poll may see during the
  attempt are 30, then after each chunk the value \<open>stream_progress\<close> of the bytes
  received so far, then the value the attempt ends with. The bytes so far after chunk
  \<open>k\<close> are the sizes of the chunks up to it; \<open>stream_progress n\<close> is
  \<open>min (30 + \<lfloor>n / 50000 * 60\<rfloor>) 90\<close> and never exceeds 90; the attempt ends with
  progress 95 or more only if the stream ended, and with at most 90 if it broke.
\<close>

theorem C7_stream_progress:
  assumes "net (request_for g host) = Responds 200 chunks broken"
  shows "map progress (polls (snd (attempt rt net g host e))) =
           map progress (polls e) @ [30] @ map stream_progress (running 0 chunks) @
           [progress (task (snd (attempt rt net g host e)))] \<and>
         (\<forall>k<length chunks. running 0 chunks ! k = length (concat (take (Suc k) chunks))) \<and>
         (\<forall>n. stream_progress n = min (30 + \<lfloor>real n / 50000 * 60\<rfloor>) 90 \<and> stream_progress n \<le> 90) \<and>
         (broken = None \<longrightarrow> 95 \<le> progress (task (snd (attempt rt net g host e)))) \<and>
         (broken \<noteq> None \<longrightarrow> progress (task (snd (attempt rt net g host e))) \<le> 90)"
proof (intro conjI allI impI)
  show "map progress (polls (snd (attempt rt net g host e))) =
      map progress (polls e) @ [30] @ map stream_progress (running 0 chunks) @
      [progress (task (snd (attempt rt net g host e)))]"
    by (simp add: attempt_polls attempt_progress_def streamed_def assms attempt_end_progress)
  show "running 0 chunks ! k = length (concat (take (Suc k) chunks))" if "k < length chunks" for k
    using running_nth [OF that, of 0] by simp
  show "stream_progress n = min (30 + \<lfloor>real n / 50000 * 60\<rfloor>) 90" for n
    by (rule stream_progress_floor)
  show "stream_progress n \<le> 90" for n
    by (rule stream_progress_bounds)
  show "95 \<le> progress (task (snd (attempt rt net g host e)))" if "broken = None"
    using that by (simp add: attempt_end_progress end_progress_def assms split: summary.splits)
  show "progress (task (snd (attempt rt net g host e))) \<le> 90" if "broken \<noteq> None"
  proof -
    from that obtain x where x: "broken = Some x" by auto
    have j: "judge rt (Responds 200 chunks (Some x)) = Lost (exn_text x)"
      by (simp add: judge_def)
    have "last (30 # map stream_progress (running 0 chunks)) \<le> 90"
      using stream_progress_bounds(2) by (cases "running 0 chunks = []") (simp_all add: last_map)
    then show ?thesis
      by (simp add: attempt_end_progress end_progress_def assms x j)
  qed
qed

lemma dropWhile_replicate_append:
  "dropWhile (\<lambda>b. b = x) (replicate n x @ ys) = dropWhile (\<lambda>b. b = x) ys"
  by (induction n) simp_all

lemma loads_padded:
  "sample_loads (replicate m 32 @ replicate n 32 @ bytes_of ''{}'') = Inr (JObj [])"
  by (simp add: sample_loads_def dropWhile_replicate_append bytes_of_def)

lemma judge_padded:
  "judge (sample_runtime sample_loads) (padded_empty r) =
     Lost ([26410, 29983, 25104, 20219, 20309, 32467, 26524] @ ascii '' ('' @ [21709, 24212] @
           ascii '': {...})'')"
  by (simp add: padded_empty_def judge_def sample_runtime_def loads_padded read_response_def
        and_then_def py_get_def truthy_def py_str_def ascii_def)

lemma running_padded:
  "map stream_progress (running 0 [replicate 1000 32, replicate 60000 32, bytes_of ''{}'']) = [31, 90, 90]"
  by (simp add: stream_progress_exact bytes_of_def)

theorem C7_stream_progress_witness:
  "map progress (polls (snd (attempt (sample_runtime sample_loads) padded_empty sample_generation
      (GOOGLE_API_HOSTS ! 0)
      \<lparr>task = sample_job, polls = [sample_job], sent = [], last_error = None\<rparr>))) =
   [10, 30, 31, 90, 90, 95]"
proof -
  let ?e = "\<lparr>task = sample_job, polls = [sample_job], sent = [], last_error = None\<rparr>"
  have r: "padded_empty (request_for sample_generation (GOOGLE_API_HOSTS ! 0)) =
      Responds 200 [replicate 1000 32, replicate 60000 32, bytes_of ''{}''] None"
    by (simp add: padded_empty_def)
  have fin: "progress (task (snd (attempt (sample_runtime sample_loads) padded_empty sample_generation
      (GOOGLE_API_HOSTS ! 0) ?e))) = 95"
    by (simp add: attempt_end_progress end_progress_def judge_padded) (simp add: padded_empty_def)
  have p10: "map progress (polls ?e) = [10]"
    by (simp add: sample_job_def)
  from C7_stream_progress [where net = padded_empty and g = sample_generation
        and host = "GOOGLE_API_HOSTS ! 0" and rt = "sample_runtime sample_loads" and e = ?e, OF r]
  have "map progress (polls (snd (attempt (sample_runtime sample_loads) padded_empty sample_generation
      (GOOGLE_API_HOSTS ! 0) ?e))) =
      map progress (polls ?e) @ [30] @
      map stream_progress (running 0 [replicate 1000 32, replicate 60000 32, bytes_of ''{}'']) @
      [progress (task (snd (attempt (sample_runtime sample_loads) padded_empty sample_generation
      (GOOGLE_API_HOSTS ! 0) ?e)))]"
    by (rule conjunct1)
  then show ?thesis
    unfolding running_padded fin p10 by simp
qed

lemma try_hosts_polls:
  "map progress (polls (snd (try_hosts rt net g hosts e))) =
     map progress (polls e) @
     concat (map (\<lambda>h. attempt_progress rt (net (request_for g h))) (tried rt net g hosts))"
  by (induction hosts arbitrary: e) (simp_all add: Let_def attempt_fst attempt_polls)

lemma tried_Nil: "tried rt net g hosts = [] \<longleftrightarrow> hosts = []"
  by (cases hosts) simp_all

lemma try_hosts_progress:
  "progress (task (snd (try_hosts rt net g hosts e))) =
     (if hosts = [] then progress (task e)
      else end_progress rt (net (request_for g (last (tried rt net g hosts)))))"
proof (induction hosts arbitrary: e)
  case Nil
  then show ?case by simp
next
  case (Cons h hs)
  show ?case
  proof (cases "is_won (judge rt (net (request_for g h)))")
    case True
    then show ?thesis by (simp add: Let_def attempt_fst attempt_end_progress)
  next
    case False
    then show ?thesis
      by (simp add: Let_def attempt_fst attempt_end_progress Cons.IH tried_Nil)
  qed
qed

lemma is_won_cases: "is_won v \<Longrightarrow> \<exists>img joined. v = Won img joined"
  by (cases v) simp_all

lemma try_hosts_won_task:
  "fst (try_hosts rt net g hosts e) \<Longrightarrow>
     status (task (snd (try_hosts rt net g hosts e))) = Completed \<and>
     progress (task (snd (try_hosts rt net g hosts e))) = 100 \<and>
     last (polls (snd (try_hosts rt net g hosts e))) = task (snd (try_hosts rt net g hosts e))"
proof (induction hosts arbitrary: e)
  case Nil
  then show ?case by simp
next
  case (Cons h hs)
  show ?case
  proof (cases "is_won (judge rt (net (request_for g h)))")
    case True
    then obtain img joined where w: "judge rt (net (request_for g h)) = Won img joined"
      using is_won_cases by blast
    show ?thesis
      using True attempt_won [where net = net and g = g and host = h, OF w]
      by (simp add: Let_def attempt_fst)
  next
    case False
    then show ?thesis using Cons by (simp add: Let_def attempt_fst)
  qed
qed

lemma try_hosts_fst:
  "fst (try_hosts rt net g hosts e) = (\<exists>h\<in>set hosts. is_won (judge rt (net (request_for g h))))"
  by (induction hosts arbitrary: e) (auto simp: Let_def attempt_fst)

lemma tried_lost:
  "\<forall>h\<in>set hosts. \<not> is_won (judge rt (net (request_for g h))) \<Longrightarrow> tried rt net g hosts = hosts"
  by (induction hosts) simp_all

lemma execute_status:
  "status (task (execute_generation rt hosts net g created)) =
     (if fst (try_hosts rt net g hosts \<lparr>task = created, polls = [created], sent = [], last_error = None\<rparr>)
      then Completed else Failed)"
  using try_hosts_won_task [of rt net g hosts "\<lparr>task = created, polls = [created], sent = [], last_error = None\<rparr>"]
  by (simp add: execute_generation_def Let_def suspend_def)

lemma execute_progress:
  "progress (task (execute_generation rt hosts net g created)) =
     progress (task (snd (try_hosts rt net g hosts
        \<lparr>task = created, polls = [created], sent = [], last_error = None\<rparr>)))"
  by (simp add: execute_generation_def Let_def suspend_def)

lemma execute_polls:
  "map progress (polls (execute_generation rt hosts net g created)) =
     progress created #
     concat (map (\<lambda>h. attempt_progress rt (net (request_for g h))) (tried rt net g hosts)) @
     (if status (task (execute_generation rt hosts net g created)) = Failed
      then [progress (task (execute_generation rt hosts net g created))] else [])"
  unfolding execute_status execute_progress
  by (simp add: execute_generation_def Let_def suspend_def try_hosts_polls)

lemma last_streamed_le: "last (30 # map stream_progress xs) \<le> 90"
proof (cases "xs = []")
  case True
  then show ?thesis by simp
next
  case False
  then have "last (30 # map stream_progress xs) = stream_progress (last xs)"
    by (simp add: last_map)
  then show ?thesis using stream_progress_bounds(2) [of "last xs"] by simp
qed

lemma end_progress_le: "end_progress rt out \<le> 100"
proof -
  have l: "last (30 # map stream_progress xs) \<le> 100" for xs
    using last_streamed_le [of xs] by linarith
  show ?thesis
    by (simp add: end_progress_def l del: last.simps split: summary.splits http_outcome.splits)
qed

lemma sorted_le_last: "sorted xs \<Longrightarrow> x \<in> set xs \<Longrightarrow> x \<le> last xs"
  for xs :: "int list"
  by (induction xs) auto

lemma streamed_sorted30: "sorted (30 # map stream_progress (running n chunks))"
  using streamed_sorted [of n chunks] stream_progress_bounds(1) by auto

lemma streamed_le: "x \<in> set (30 # streamed out) \<Longrightarrow> x \<le> 90"
  using stream_progress_bounds(2)
  by (auto simp: streamed_def split: http_outcome.splits if_splits)

lemma end_progress_ge:
  assumes "x \<in> set (30 # streamed out)"
  shows "x \<le> end_progress rt out"
proof (cases out)
  case (Raises e)
  then show ?thesis using assms
    by (simp add: end_progress_def streamed_def split: summary.splits)
next
  case (Responds code chunks broken)
  have le90: "x \<le> 90" using assms by (rule streamed_le)
  show ?thesis
  proof (cases "code = 200 \<and> broken \<noteq> None")
    case False
    then consider "code \<noteq> 200" | "code = 200" "broken = None" by blast
    then show ?thesis
    proof cases
      case 1
      then show ?thesis using assms Responds
        by (simp add: end_progress_def streamed_def split: summary.splits)
    next
      case 2
      then show ?thesis using le90 Responds
        by (simp add: end_progress_def split: summary.splits)
    qed
  next
    case True
    then have x: "x \<in> set (30 # map stream_progress (running 0 chunks))"
      using assms Responds by (simp add: streamed_def)
    have "x \<le> last (30 # map stream_progress (running 0 chunks))"
      using streamed_sorted30 x by (rule sorted_le_last)
    then show ?thesis using True Responds le90
      by (simp add: end_progress_def split: summary.splits)
  qed
qed

lemma attempt_progress_sorted:
  "sorted (attempt_progress rt out)" "hd (attempt_progress rt out) = 30"
  "last (attempt_progress rt out) \<le> 100"
proof -
  have "sorted (30 # streamed out)"
  proof (cases out)
    case (Raises x)
    then show ?thesis by (simp add: streamed_def)
  next
    case (Responds code chunks broken)
    then show ?thesis using streamed_sorted30 [of 0 chunks]
      by (cases "code = 200") (simp_all add: streamed_def)
  qed
  then have "sorted ((30 # streamed out) @ [end_progress rt out])"
    using end_progress_ge [of _ out rt] by (simp only: sorted_append) simp
  then show "sorted (attempt_progress rt out)" by (simp add: attempt_progress_def)
  show "hd (attempt_progress rt out) = 30" by (simp add: attempt_progress_def)
  show "last (attempt_progress rt out) \<le> 100"
    using end_progress_le by (simp add: attempt_progress_def)
qed

lemma end_progress_100:
  "end_progress rt out = 100 \<longleftrightarrow> (\<forall>m. judge rt out \<noteq> Lost m)"
proof -
  have l: "last (30 # map stream_progress xs) \<noteq> 100" for xs
    using last_streamed_le [of xs] by linarith
  show ?thesis
    by (auto simp: end_progress_def l simp del: last.simps split: summary.splits http_outcome.splits)
qed

lemma judge_odd_text:
  "judge (sample_runtime sample_loads) (odd_text r) =
     WroteThenRaised (ascii ''data:image/png;base64,AAAA'') (ascii ''TypeError: unsupported operand'')"
proof -
  have l: "sample_loads odd_text_body =
      Inr (JObj [(ascii ''candidates'', JArr [JObj [(ascii ''content'', JObj [(ascii ''parts'',
          JArr [JObj [(ascii ''inlineData'', JObj [(ascii ''data'', JStr (ascii ''AAAA''))])],
                JObj [(ascii ''text'', JInt 5)]])])]])])"
    by (simp add: sample_loads_def blocked_body_def image_body_def odd_text_body_def bytes_of_def)
  show ?thesis
    by (simp add: odd_text_def judge_def sample_runtime_def l read_response_def and_then_def py_get_def
        truthy_def py_str_def py_first_def py_iter_def py_contains_def py_item_def py_len_def
        judge_parts_def py_join_def exn_text_def ascii_def)
qed

lemma attempt_progress_padded:
  "attempt_progress (sample_runtime sample_loads) (padded_empty r) = [30, 31, 90, 90, 95]"
proof -
  have "streamed (padded_empty r) = [31, 90, 90]"
    unfolding streamed_def padded_empty_def using running_padded by simp
  moreover have "end_progress (sample_runtime sample_loads) (padded_empty r) = 95"
    by (simp add: end_progress_def judge_padded) (simp add: padded_empty_def)
  ultimately show ?thesis by (simp add: attempt_progress_def)
qed

lemma padded_run:
  "map progress (polls (execute_generation (sample_runtime sample_loads) GOOGLE_API_HOSTS padded_empty
      sample_generation sample_job)) = [10, 30, 31, 90, 90, 95, 30, 31, 90, 90, 95, 95] \<and>
   status (task (execute_generation (sample_runtime sample_loads) GOOGLE_API_HOSTS padded_empty
      sample_generation sample_job)) = Failed"
proof -
  let ?rt = "sample_runtime sample_loads"
  let ?init = "\<lparr>task = sample_job, polls = [sample_job], sent = [], last_error = None\<rparr>"
  have lost: "\<forall>h\<in>set GOOGLE_API_HOSTS. \<not> is_won (judge ?rt (padded_empty (request_for sample_generation h)))"
    by (simp add: judge_padded)
  have st: "status (task (execute_generation ?rt GOOGLE_API_HOSTS padded_empty sample_generation sample_job)) = Failed"
    by (simp add: execute_status try_hosts_fst judge_padded)
  have pr: "progress (task (execute_generation ?rt GOOGLE_API_HOSTS padded_empty sample_generation sample_job)) = 95"
    unfolding execute_progress try_hosts_progress
    by (simp add: GOOGLE_API_HOSTS_def end_progress_def judge_padded) (simp add: padded_empty_def)
  have tr: "tried ?rt padded_empty sample_generation GOOGLE_API_HOSTS = GOOGLE_API_HOSTS"
    using lost by (rule tried_lost)
  have "map progress (polls (execute_generation ?rt GOOGLE_API_HOSTS padded_empty sample_generation sample_job))
      = [10, 30, 31, 90, 90, 95, 30, 31, 90, 90, 95, 95]"
    unfolding execute_polls st pr tr
    by (simp add: attempt_progress_padded GOOGLE_API_HOSTS_def sample_job_def)
  with st show ?thesis by simp
qed

text \<open>
  C1, as the code has it. The progress values a poll may see over a job are the value at
  creation, then for each host tried the values of that attempt, then once more the
  last value if the job ends failed. Within one attempt the values start at 30, never
  decrease and stay at or below 100; since every attempt sets progress back to 30,
  the values can decrease from one attempt to the next. The job ends completed or
  failed; completed implies progress 100; and when the job was created below 100 and no
  attempt wrote its image and then raised, progress 100 holds exactly when the job is
  completed.
\<close>

theorem C1_progress_by_attempt:
  "map progress (polls (execute_generation rt hosts net g created)) =
     progress created #
     concat (map (\<lambda>h. attempt_progress rt (net (request_for g h))) (tried rt net g hosts)) @
     (if status (task (execute_generation rt hosts net g created)) = Failed
      then [progress (task (execute_generation rt hosts net g created))] else []) \<and>
   (\<forall>h. sorted (attempt_progress rt (net (request_for g h))) \<and>
        hd (attempt_progress rt (net (request_for g h))) = 30 \<and>
        last (attempt_progress rt (net (request_for g h))) \<le> 100) \<and>
   (status (task (execute_generation rt hosts net g created)) = Completed \<or>
    status (task (execute_generation rt hosts net g created)) = Failed) \<and>
   (status (task (execute_generation rt hosts net g created)) = Completed \<longrightarrow>
      progress (task (execute_generation rt hosts net g created)) = 100) \<and>
   (progress created < 100 \<and>
    (\<forall>h\<in>set hosts. \<forall>img m. judge rt (net (request_for g h)) \<noteq> WroteThenRaised img m) \<longrightarrow>
      (progress (task (execute_generation rt hosts net g created)) = 100 \<longleftrightarrow>
       status (task (execute_generation rt hosts net g created)) = Completed))"
proof (intro conjI allI impI)
  let ?init = "\<lparr>task = created, polls = [created], sent = [], last_error = None\<rparr>"
  let ?F = "execute_generation rt hosts net g created"
  show "map progress (polls ?F) =
     progress created #
     concat (map (\<lambda>h. attempt_progress rt (net (request_for g h))) (tried rt net g hosts)) @
     (if status (task ?F) = Failed then [progress (task ?F)] else [])"
    by (rule execute_polls)
  show "sorted (attempt_progress rt (net (request_for g h)))" for h
    by (rule attempt_progress_sorted)
  show "hd (attempt_progress rt (net (request_for g h))) = 30" for h
    by (rule attempt_progress_sorted)
  show "last (attempt_progress rt (net (request_for g h))) \<le> 100" for h
    by (rule attempt_progress_sorted)
  show "status (task ?F) = Completed \<or> status (task ?F) = Failed"
    by (simp add: execute_status)
  have fin: "progress (task ?F) = 100" if "status (task ?F) = Completed"
  proof -
    from that have "fst (try_hosts rt net g hosts ?init)"
      by (simp add: execute_status split: if_splits)
    then show ?thesis
      using try_hosts_won_task [of rt net g hosts ?init] by (simp add: execute_progress)
  qed
  show "progress (task ?F) = 100" if "status (task ?F) = Completed"
    using that by (rule fin)
  show "progress (task ?F) = 100 \<longleftrightarrow> status (task ?F) = Completed"
    if h: "progress created < 100 \<and>
      (\<forall>h\<in>set hosts. \<forall>img m. judge rt (net (request_for g h)) \<noteq> WroteThenRaised img m)"
  proof
    assume p: "progress (task ?F) = 100"
    show "status (task ?F) = Completed"
    proof (rule ccontr)
      assume "status (task ?F) \<noteq> Completed"
      then have nf: "\<not> fst (try_hosts rt net g hosts ?init)"
        by (simp add: execute_status split: if_splits)
      then have lost: "\<forall>x\<in>set hosts. \<not> is_won (judge rt (net (request_for g x)))"
        by (simp add: try_hosts_fst)
      have ne: "hosts \<noteq> []"
        using p h by (auto simp: execute_progress try_hosts_progress)
      then have e100: "end_progress rt (net (request_for g (last hosts))) = 100"
        using p tried_lost [OF lost] by (simp add: execute_progress try_hosts_progress)
      have "last hosts \<in> set hosts" using ne by simp
      then have "\<not> is_won (judge rt (net (request_for g (last hosts))))"
        and "\<forall>img m. judge rt (net (request_for g (last hosts))) \<noteq> WroteThenRaised img m"
        using lost h by blast+
      then obtain m where "judge rt (net (request_for g (last hosts))) = Lost m"
        by (cases "judge rt (net (request_for g (last hosts)))") simp_all
      then show False using e100 by (simp add: end_progress_100)
    qed
  next
    assume "status (task ?F) = Completed"
    then show "progress (task ?F) = 100" by (rule fin)
  qed
qed

theorem C1_progress_by_attempt_witness:
  "map progress (polls (execute_generation (sample_runtime sample_loads) GOOGLE_API_HOSTS padded_empty
      sample_generation sample_job)) = [10, 30, 31, 90, 90, 95, 30, 31, 90, 90, 95, 95] \<and>
   sorted (attempt_progress (sample_runtime sample_loads)
      (padded_empty (request_for sample_generation (GOOGLE_API_HOSTS ! 0)))) \<and>
   status (task (execute_generation (sample_runtime sample_loads) GOOGLE_API_HOSTS padded_empty
      sample_generation sample_job)) = Failed \<and>
   progress (task (execute_generation (sample_runtime sample_loads) GOOGLE_API_HOSTS padded_empty
      sample_generation sample_job)) \<noteq> 100"
proof -
  let ?rt = "sample_runtime sample_loads"
  let ?F = "execute_generation ?rt GOOGLE_API_HOSTS padded_empty sample_generation sample_job"
  note c1 = C1_progress_by_attempt [of ?rt GOOGLE_API_HOSTS padded_empty sample_generation sample_job]
  have clean: "progress sample_job < 100 \<and>
      (\<forall>h\<in>set GOOGLE_API_HOSTS. \<forall>img m.
         judge ?rt (padded_empty (request_for sample_generation h)) \<noteq> WroteThenRaised img m)"
    by (simp add: judge_padded sample_job_def)
  have st: "status (task ?F) = Failed"
    using padded_run by simp
  from c1 clean have "progress (task ?F) = 100 \<longleftrightarrow> status (task ?F) = Completed"
    by blast
  with st have "progress (task ?F) \<noteq> 100" by simp
  moreover from c1 have "sorted (attempt_progress ?rt
      (padded_empty (request_for sample_generation (GOOGLE_API_HOSTS ! 0))))"
    by blast
  ultimately show ?thesis using padded_run by simp
qed

text \<open>
  C1 as the claim words it fails: with two hosts that each stream a body without
  candidates, the observable progress goes 10, 30, 31, 90, 90, 95 and then back to 30.
\<close>

theorem C1_counterexample:
  "\<not> sorted (map progress (polls (execute_generation (sample_runtime sample_loads) GOOGLE_API_HOSTS
      padded_empty sample_generation sample_job)))"
  using padded_run by simp

lemma odd_text_run:
  "status (task (execute_generation (sample_runtime sample_loads) GOOGLE_API_HOSTS odd_text
      sample_generation sample_job)) = Failed \<and>
   progress (task (execute_generation (sample_runtime sample_loads) GOOGLE_API_HOSTS odd_text
      sample_generation sample_job)) = 100"
proof -
  have "status (task (execute_generation (sample_runtime sample_loads) GOOGLE_API_HOSTS odd_text
      sample_generation sample_job)) = Failed"
    by (simp add: execute_status try_hosts_fst judge_odd_text)
  moreover have "progress (task (execute_generation (sample_runtime sample_loads) GOOGLE_API_HOSTS odd_text
      sample_generation sample_job)) = 100"
    unfolding execute_progress try_hosts_progress
    by (simp add: GOOGLE_API_HOSTS_def end_progress_def judge_odd_text)
  ultimately show ?thesis by simp
qed

lemma judge_odd_then_blocked:
  "judge (sample_runtime sample_loads) (odd_then_blocked (request_for sample_generation (GOOGLE_API_HOSTS ! 0))) =
     WroteThenRaised (ascii ''data:image/png;base64,AAAA'') (ascii ''TypeError: unsupported operand'')"
  "judge (sample_runtime sample_loads) (odd_then_blocked (request_for sample_generation (GOOGLE_API_HOSTS ! 1))) =
     Lost ([20869, 23481, 34987, 23433, 20840, 31574, 30053, 38459, 27490] @ ascii '': SAFETY'')"
proof -
  show "judge (sample_runtime sample_loads) (odd_then_blocked (request_for sample_generation (GOOGLE_API_HOSTS ! 0))) =
     WroteThenRaised (ascii ''data:image/png;base64,AAAA'') (ascii ''TypeError: unsupported operand'')"
    using judge_odd_text [of undefined] by (simp add: odd_then_blocked_def odd_text_def)
  show "judge (sample_runtime sample_loads) (odd_then_blocked (request_for sample_generation (GOOGLE_API_HOSTS ! 1))) =
     Lost ([20869, 23481, 34987, 23433, 20840, 31574, 30053, 38459, 27490] @ ascii '': SAFETY'')"
    using url_differs by (simp add: odd_then_blocked_def judge_blocked)
qed

text \<open>
  C3. The claim fails where the response that holds the image also has a text item that
  is not a string. Let the first mirror answer 200 with a body whose first candidate has
  the parts \<^verbatim>\<open>{"inlineData": {"data": "AAAA"}}\<close> and \<^verbatim>\<open>{"text": 5}\<close>, and the second
  mirror answer that the prompt is blocked. The attempt on the first mirror finds the
  image and writes status completed, progress 100 and the result (lines 255 to 257), but
  does not return: the \<^verbatim>\<open>join\<close> of \<^verbatim>\<open>text_response\<close> (line 259) raises, the handler of
  line 269 records the error and the loop goes on. The second mirror is asked, and the job
  ends failed with the second mirror's reason as its error.
\<close>

theorem C3_image_then_raise:
  "fst (attempt (sample_runtime sample_loads) odd_then_blocked sample_generation (GOOGLE_API_HOSTS ! 0)
         \<lparr>task = sample_job, polls = [sample_job], sent = [], last_error = None\<rparr>) = False \<and>
   status (task (snd (attempt (sample_runtime sample_loads) odd_then_blocked sample_generation
         (GOOGLE_API_HOSTS ! 0)
         \<lparr>task = sample_job, polls = [sample_job], sent = [], last_error = None\<rparr>))) = Completed \<and>
   progress (task (snd (attempt (sample_runtime sample_loads) odd_then_blocked sample_generation
         (GOOGLE_API_HOSTS ! 0)
         \<lparr>task = sample_job, polls = [sample_job], sent = [], last_error = None\<rparr>))) = 100 \<and>
   result_base64 (task (snd (attempt (sample_runtime sample_loads) odd_then_blocked sample_generation
         (GOOGLE_API_HOSTS ! 0)
         \<lparr>task = sample_job, polls = [sample_job], sent = [], last_error = None\<rparr>))) =
     Some (ascii ''data:image/png;base64,AAAA'') \<and>
   status (task (execute_generation (sample_runtime sample_loads) GOOGLE_API_HOSTS odd_then_blocked
         sample_generation sample_job)) = Failed \<and>
   error (task (execute_generation (sample_runtime sample_loads) GOOGLE_API_HOSTS odd_then_blocked
         sample_generation sample_job)) =
     Some ([20869, 23481, 34987, 23433, 20840, 31574, 30053, 38459, 27490] @ ascii '': SAFETY'') \<and>
   sent (execute_generation (sample_runtime sample_loads) GOOGLE_API_HOSTS odd_then_blocked
         sample_generation sample_job) =
     [request_for sample_generation (GOOGLE_API_HOSTS ! 0),
      request_for sample_generation (GOOGLE_API_HOSTS ! 1)]"
proof -
  let ?rt = "sample_runtime sample_loads"
  let ?init = "\<lparr>task = sample_job, polls = [sample_job], sent = [], last_error = None\<rparr>"
  note j = judge_odd_then_blocked
  have hosts: "GOOGLE_API_HOSTS = [GOOGLE_API_HOSTS ! 0, GOOGLE_API_HOSTS ! 1]"
    by (simp add: GOOGLE_API_HOSTS_def)
  have first: "fst (attempt ?rt odd_then_blocked sample_generation (GOOGLE_API_HOSTS ! 0) ?init) = False"
    by (simp add: attempt_fst j)
  have wrote: "status (task (snd (attempt ?rt odd_then_blocked sample_generation (GOOGLE_API_HOSTS ! 0) ?init))) = Completed"
    "progress (task (snd (attempt ?rt odd_then_blocked sample_generation (GOOGLE_API_HOSTS ! 0) ?init))) = 100"
    "result_base64 (task (snd (attempt ?rt odd_then_blocked sample_generation (GOOGLE_API_HOSTS ! 0) ?init))) =
       Some (ascii ''data:image/png;base64,AAAA'')"
    by (simp_all add: attempt_summary j suspend_keeps settle_image [where img = "ascii ''data:image/png;base64,AAAA''"
          and m = "ascii ''TypeError: unsupported operand''"])
  have lost: "\<forall>x\<in>set [GOOGLE_API_HOSTS ! 0, GOOGLE_API_HOSTS ! 1].
      \<not> is_won (judge ?rt (odd_then_blocked (request_for sample_generation x)))"
    using j by simp
  note l = try_hosts_lost [where net = odd_then_blocked and g = sample_generation and e = ?init, OF lost]
  have run: "execute_generation ?rt [GOOGLE_API_HOSTS ! 0, GOOGLE_API_HOSTS ! 1] odd_then_blocked sample_generation sample_job =
      suspend ((snd (try_hosts ?rt odd_then_blocked sample_generation [GOOGLE_API_HOSTS ! 0, GOOGLE_API_HOSTS ! 1] ?init))
        \<lparr>task := (task (snd (try_hosts ?rt odd_then_blocked sample_generation [GOOGLE_API_HOSTS ! 0, GOOGLE_API_HOSTS ! 1] ?init)))
           \<lparr>status := Failed,
            error := Some ([20869, 23481, 34987, 23433, 20840, 31574, 30053, 38459, 27490] @ ascii '': SAFETY'')\<rparr>\<rparr>)"
    unfolding execute_generation_def Let_def l(1) l(3) using j(2) by (simp add: ascii_def)
  have fin: "status (task (execute_generation ?rt [GOOGLE_API_HOSTS ! 0, GOOGLE_API_HOSTS ! 1] odd_then_blocked
         sample_generation sample_job)) = Failed"
     "error (task (execute_generation ?rt [GOOGLE_API_HOSTS ! 0, GOOGLE_API_HOSTS ! 1] odd_then_blocked
         sample_generation sample_job)) =
       Some ([20869, 23481, 34987, 23433, 20840, 31574, 30053, 38459, 27490] @ ascii '': SAFETY'')"
     "sent (execute_generation ?rt [GOOGLE_API_HOSTS ! 0, GOOGLE_API_HOSTS ! 1] odd_then_blocked
         sample_generation sample_job) =
       [request_for sample_generation (GOOGLE_API_HOSTS ! 0),
        request_for sample_generation (GOOGLE_API_HOSTS ! 1)]"
    unfolding run using l(2) by (simp_all add: suspend_def)
  show ?thesis
    using first wrote fin [folded hosts] by simp
qed














end
